theory Spec2Isabelle
  imports
    Main
    "HOL-Library.AList"
    "HOL-Library.Char_ord"
    "HOL-Library.List_Lexorder"
    "HOL-Library.Product_Lexorder"
begin

section \<open>Names, extensions and the sort key of \<^verbatim>\<open>dataset_utils.py\<close>\<close>

text \<open>
  A file name is a Python \<^verbatim>\<open>str\<close>. Here it is a \<^typ>\<open>string\<close>, each
  \<^typ>\<open>char\<close> read as one code point below 256. In that range the decimal digits of
  the regular expression class \<^verbatim>\<open>\d\<close> are exactly \<^verbatim>\<open>0\<close> to \<^verbatim>\<open>9\<close>, and
  \<^verbatim>\<open>str.lower\<close> maps \<^verbatim>\<open>A-Z\<close> and the accented capitals \<^verbatim>\<open>0xC0-0xDE\<close>
  (without \<^verbatim>\<open>0xD7\<close>) to the letter 32 places further. Python compares strings by
  code point, the shorter of two strings first when one is a prefix of the other: the order
  of \<^typ>\<open>char list\<close> here. Tuples compare lexicographically.
\<close>

definition is_digit :: "char \<Rightarrow> bool" where
  "is_digit c = (48 \<le> (of_char c :: nat) \<and> (of_char c :: nat) \<le> 57)"

definition digit_val :: "char \<Rightarrow> int" where
  "digit_val c = int (of_char c) - 48"

text \<open>\<^verbatim>\<open>int(s)\<close> on a run of decimal digits.\<close>

definition int_of_digits :: "string \<Rightarrow> int" where
  "int_of_digits ds = foldl (\<lambda>a c. 10 * a + digit_val c) 0 ds"

text \<open>
  \<^verbatim>\<open>NUM_PREFIX_RE = re.compile(r'^(\d+)')\<close>: group 1 of a match is the longest run of
  digits the name starts with, and there is a match when that run is not empty.
\<close>

definition num_prefix :: "string \<Rightarrow> string" where
  "num_prefix name = takeWhile is_digit name"

text \<open>
  \<^verbatim>\<open>
  def extract_sort_key(name):
      m = NUM_PREFIX_RE.match(name)
      if m:
          return (int(m.group(1)), name)
      return (10**9, name)
  \<close>
\<close>

definition extract_sort_key :: "string \<Rightarrow> int \<times> string" where
  "extract_sort_key name =
     (if num_prefix name \<noteq> [] then (int_of_digits (num_prefix name), name)
      else (10 ^ 9, name))"

definition lower_char :: "char \<Rightarrow> char" where
  "lower_char c =
     (let n = (of_char c :: nat) in
      if (65 \<le> n \<and> n \<le> 90) \<or> (192 \<le> n \<and> n \<le> 222 \<and> n \<noteq> 215)
      then char_of (n + 32) else c)"

definition lower :: "string \<Rightarrow> string" where
  "lower s = map lower_char s"

text \<open>
  \<^verbatim>\<open>str.rfind('.')\<close>: the index of the last dot, \<open>None\<close> for Python's \<open>-1\<close>.
\<close>

fun rfind_dot :: "string \<Rightarrow> nat option" where
  "rfind_dot [] = None"
| "rfind_dot (c # cs) =
     (case rfind_dot cs of
        Some i \<Rightarrow> Some (Suc i)
      | None \<Rightarrow> if c = CHR ''.'' then Some 0 else None)"

text \<open>
  \<^verbatim>\<open>PurePath.suffix\<close> as CPython's pathlib has it up to 3.13:
  \<^verbatim>\<open>
  i = name.rfind('.')
  if 0 < i < len(name) - 1: return name[i:]
  else: return ''
  \<close>
\<close>

definition suffix :: "string \<Rightarrow> string" where
  "suffix name =
     (case rfind_dot name of
        Some i \<Rightarrow> if 0 < i \<and> int i < int (length name) - 1 then drop i name else []
      | None \<Rightarrow> [])"

definition IMG_EXTS :: "string list" where
  "IMG_EXTS = [''.jpg'', ''.jpeg'', ''.png'', ''.bmp'', ''.webp'', ''.tiff'']"

section \<open>The file system\<close>

text \<open>
  A node is a regular file with its content or a directory with its entries. The entries
  of a directory are an association list in the order \<^verbatim>\<open>iterdir\<close> yields them, which the
  operating system chooses; in a real directory the names are distinct. Symbolic links,
  permissions and time stamps are not modelled.
\<close>

datatype node = File string | Dir "(string \<times> node) list"

type_synonym dir = "(string \<times> node) list"

fun is_file :: "node \<Rightarrow> bool" where
  "is_file (File c) = True"
| "is_file (Dir es) = False"

fun is_dir :: "node \<Rightarrow> bool" where
  "is_dir (File c) = False"
| "is_dir (Dir es) = True"

text \<open>
  \<^verbatim>\<open>
  def gather_image_files(folder):
      files = []
      for p in folder.iterdir():
          if p.is_file() and p.suffix.lower() in IMG_EXTS:
              files.append(p)
      files.sort(key=lambda p: extract_sort_key(p.name))
      return files
  \<close>
  The paths returned are the folder's children, given here by their names.
  \<^verbatim>\<open>list.sort\<close> is stable, as \<^const>\<open>sort_key\<close> is.
\<close>

definition is_image :: "string \<times> node \<Rightarrow> bool" where
  "is_image p = (is_file (snd p) \<and> lower (suffix (fst p)) \<in> set IMG_EXTS)"

definition gather_image_files :: "dir \<Rightarrow> string list" where
  "gather_image_files folder = sort_key extract_sort_key (map fst (filter is_image folder))"

section \<open>Messages, failures and the primitives\<close>

text \<open>
  One constructor for each \<^verbatim>\<open>print\<close> of the source, with the values it formats. A path
  is given by its components below the dataset root.
  \<^item> \<open>RootNotFound\<close>: \<^verbatim>\<open>dataset_root not found or not a directory: ...\<close>
  \<^item> \<open>NoTaskFolders\<close>: \<^verbatim>\<open>No task folders found under ...\<close>
  \<^item> \<open>Found n\<close>: \<^verbatim>\<open>Found {n} task folder(s) under ...\<close>
  \<^item> \<open>ProcessingTask name\<close>: \<^verbatim>\<open>Processing task folder: {name}\<close>
  \<^item> \<open>Done\<close>: \<^verbatim>\<open>Done.\<close>
  \<^item> \<open>SkipNoInputs task\<close>: \<^verbatim>\<open>[skip] no image_inputs in {task}\<close>
  \<^item> \<open>SkipNoImages task\<close>: \<^verbatim>\<open>[skip] image_inputs exists but no images found in {task}\<close>
  \<^item> \<open>Processing task n\<close>: \<^verbatim>\<open>processing {task}: {n} image(s) -> trajectory/\<close>
  \<^item> \<open>DryRun action name new_name\<close>: \<^verbatim>\<open>[dry-run] {action} {name} -> trajectory/{new_name}\<close>
  \<^item> \<open>ErrorMoving src dest e\<close>: \<^verbatim>\<open>[error] moving {src} -> {dest}: {e}\<close>
  \<^item> \<open>ErrorCopying src dest e\<close>: \<^verbatim>\<open>[error] copying {src} -> {dest}: {e}\<close>
  \<^item> \<open>RemovedEmpty path\<close>: \<^verbatim>\<open>removed empty folder {path}\<close>
\<close>

datatype msg =
    RootNotFound
  | NoTaskFolders
  | Found nat
  | ProcessingTask string
  | Done
  | SkipNoInputs string
  | SkipNoImages string
  | Processing string nat
  | DryRun string string string
  | ErrorMoving "string list" "string list" string
  | ErrorCopying "string list" "string list" string
  | RemovedEmpty "string list"

text \<open>How a call ends: it returns, or an exception nobody catches leaves it.\<close>

datatype outcome = Returned | Raised string

text \<open>
  The source has three handlers: around \<^verbatim>\<open>shutil.move\<close>, around \<^verbatim>\<open>shutil.copy2\<close> and
  around the removal of the emptied input folder. What the handlers are for (permission
  denied, disk full, a busy folder) is outside the tree of nodes, so it is a parameter:
  \<open>transfer_fault env task name\<close> is the cause with which the move or copy of that source
  file fails, if it does, and \<open>rmdir_fault env task\<close> says that the removal block of that
  task raises. A primitive that fails leaves the tree as it was. Everywhere else a
  primitive does what the tree of nodes determines.
\<close>

record env =
  transfer_fault :: "string \<Rightarrow> string \<Rightarrow> string option"
  rmdir_fault :: "string \<Rightarrow> bool"

text \<open>\<^verbatim>\<open>str(i)\<close> for \<open>i \<ge> 0\<close>, as the f-string formats the index.\<close>

function dec :: "nat \<Rightarrow> string" where
  "dec n = (if n < 10 then [char_of (48 + n)] else dec (n div 10) @ [char_of (48 + n mod 10)])"
  by pat_completeness auto
termination
  by (relation "measure id") auto

declare dec.simps [simp del]

text \<open>\<^verbatim>\<open>ext = img_path.suffix.lower(); new_name = f"step_{i}_screenshot{ext}"\<close>\<close>

definition new_name :: "nat \<Rightarrow> string \<Rightarrow> string" where
  "new_name i name = ''step_'' @ dec i @ ''_screenshot'' @ lower (suffix name)"

text \<open>
  \<^verbatim>\<open>shutil.copy2(src, dst)\<close> with \<open>src\<close> the child \<open>name\<close> of the input folder \<open>ins\<close> and
  \<open>dst\<close> the child \<open>dst\<close> of the trajectory folder \<open>tr\<close>: the content is written to
  \<open>dst\<close>, replacing a regular file that is there; when \<open>dst\<close> is an existing directory the
  file goes into it under the source's name. The source stays.
\<close>

definition shutil_copy2 :: "string \<Rightarrow> string \<Rightarrow> dir \<Rightarrow> dir \<Rightarrow> string + dir" where
  "shutil_copy2 name dst ins tr =
     (case map_of ins name of
        None \<Rightarrow> Inl ''No such file or directory''
      | Some (Dir es) \<Rightarrow> Inl ''Is a directory''
      | Some (File c) \<Rightarrow>
          (case map_of tr dst of
             Some (Dir sub) \<Rightarrow>
               (case map_of sub name of
                  Some (Dir es) \<Rightarrow> Inl ''Is a directory''
                | _ \<Rightarrow> Inr (AList.update dst (Dir (AList.update name (File c) sub)) tr))
           | _ \<Rightarrow> Inr (AList.update dst (File c) tr)))"

text \<open>
  \<^verbatim>\<open>shutil.move(src, dst)\<close> for a regular file: as the copy, and the source is gone
  afterwards; when \<open>dst\<close> is an existing directory that already has an entry of the
  source's name, it raises \<^verbatim>\<open>Destination path ... already exists\<close>. (The loop only moves
  names gathered as regular files; a source that is a directory is modelled as a failure.)
\<close>

definition shutil_move :: "string \<Rightarrow> string \<Rightarrow> dir \<Rightarrow> dir \<Rightarrow> string + dir \<times> dir" where
  "shutil_move name dst ins tr =
     (case map_of ins name of
        None \<Rightarrow> Inl ''No such file or directory''
      | Some (Dir es) \<Rightarrow> Inl ''Is a directory''
      | Some (File c) \<Rightarrow>
          (case map_of tr dst of
             Some (Dir sub) \<Rightarrow>
               (case map_of sub name of
                  None \<Rightarrow> Inr (AList.delete name ins,
                               AList.update dst (Dir (AList.update name (File c) sub)) tr)
                | Some nd \<Rightarrow> Inl ''Destination path already exists'')
           | _ \<Rightarrow> Inr (AList.delete name ins, AList.update dst (File c) tr)))"

text \<open>\<^verbatim>\<open>Path.mkdir(exist_ok=True)\<close>: \<^verbatim>\<open>FileExistsError\<close> when the path is a regular file.\<close>

definition mkdir_exist_ok :: "string \<Rightarrow> dir \<Rightarrow> string + dir" where
  "mkdir_exist_ok k t =
     (case map_of t k of
        None \<Rightarrow> Inr (t @ [(k, Dir [])])
      | Some (Dir es) \<Rightarrow> Inr t
      | Some (File c) \<Rightarrow> Inl ''FileExistsError'')"

definition entries :: "dir \<Rightarrow> string \<Rightarrow> dir" where
  "entries t k = (case map_of t k of Some (Dir es) \<Rightarrow> es | _ \<Rightarrow> [])"

section \<open>\<^verbatim>\<open>process_task\<close>\<close>

text \<open>
  The body of the loop over \<^verbatim>\<open>enumerate(images)\<close>, on the entries of the input folder,
  the entries of the trajectory folder and the text printed so far:
  \<^verbatim>\<open>
  ext = img_path.suffix.lower()
  new_name = f"step_{i}_screenshot{ext}"
  dest = trajectory / new_name
  if dry_run:
      action = "move" if move_files else "copy"
      print(f"    [dry-run] {action} {img_path.name} -> {trajectory.name}/{new_name}")
  else:
      if move_files:
          try: shutil.move(str(img_path), str(dest))
          except Exception as e: print(f"    [error] moving {img_path} -> {dest}: {e}")
      else:
          try: shutil.copy2(str(img_path), str(dest))
          except Exception as e: print(f"    [error] copying {img_path} -> {dest}: {e}")
  \<close>
\<close>

definition transfer ::
  "env \<Rightarrow> string \<Rightarrow> bool \<Rightarrow> bool \<Rightarrow> nat \<Rightarrow> string \<Rightarrow> dir \<times> dir \<times> msg list \<Rightarrow> dir \<times> dir \<times> msg list"
where
  "transfer env task move_files dry_run i name st =
     (case st of (ins, tr, log) \<Rightarrow>
        let src = [task, ''image_inputs'', name];
            dest = [task, ''trajectory'', new_name i name]
        in
        if dry_run then
          (ins, tr, log @ [DryRun (if move_files then ''move'' else ''copy'') name (new_name i name)])
        else if move_files then
          (case (case transfer_fault env task name of
                   Some e \<Rightarrow> Inl e
                 | None \<Rightarrow> shutil_move name (new_name i name) ins tr) of
             Inr (ins', tr') \<Rightarrow> (ins', tr', log)
           | Inl e \<Rightarrow> (ins, tr, log @ [ErrorMoving src dest e]))
        else
          (case (case transfer_fault env task name of
                   Some e \<Rightarrow> Inl e
                 | None \<Rightarrow> shutil_copy2 name (new_name i name) ins tr) of
             Inr tr' \<Rightarrow> (ins, tr', log)
           | Inl e \<Rightarrow> (ins, tr, log @ [ErrorCopying src dest e])))"

fun transfer_all ::
  "env \<Rightarrow> string \<Rightarrow> bool \<Rightarrow> bool \<Rightarrow> nat \<Rightarrow> string list \<Rightarrow> dir \<times> dir \<times> msg list \<Rightarrow> dir \<times> dir \<times> msg list"
where
  "transfer_all env task move_files dry_run i [] st = st"
| "transfer_all env task move_files dry_run i (name # names) st =
     transfer_all env task move_files dry_run (Suc i) names
       (transfer env task move_files dry_run i name st)"

text \<open>
  \<^verbatim>\<open>process_task(task_folder, move_files, dry_run)\<close> on the entries \<open>t\<close> of the task
  folder; \<open>task\<close> is \<^verbatim>\<open>task_folder.name\<close>. It gives the entries afterwards, the text
  printed and how the call ended. An uncaught exception can only come from
  \<^verbatim>\<open>trajectory.mkdir(exist_ok=True)\<close>. The last block of the source,
  \<^verbatim>\<open>
  if not dry_run and move_files:
      try:
          if not any(image_inputs.iterdir()):
              image_inputs.rmdir()
              print(f"    removed empty folder {image_inputs}")
      except Exception:
          pass
  \<close>
  does nothing when it raises.
\<close>

definition process_task ::
  "env \<Rightarrow> string \<Rightarrow> bool \<Rightarrow> bool \<Rightarrow> dir \<Rightarrow> dir \<times> msg list \<times> outcome"
where
  "process_task env task move_files dry_run t =
     (case map_of t ''image_inputs'' of
        Some (Dir ins) \<Rightarrow>
          (case (if dry_run then Inr t else mkdir_exist_ok ''trajectory'' t) of
             Inl e \<Rightarrow> (t, [], Raised e)
           | Inr t1 \<Rightarrow>
               let images = gather_image_files ins in
               if images = [] then (t1, [SkipNoImages task], Returned)
               else
                 (case transfer_all env task move_files dry_run 0 images
                         (ins, entries t1 ''trajectory'', [Processing task (length images)]) of
                    (ins', tr', log) \<Rightarrow>
                      if dry_run then (t1, log, Returned)
                      else
                        let t2 = AList.update ''trajectory'' (Dir tr')
                                   (AList.update ''image_inputs'' (Dir ins') t1)
                        in
                        if move_files \<and> \<not> rmdir_fault env task \<and> ins' = []
                        then (AList.delete ''image_inputs'' t2,
                              log @ [RemovedEmpty [task, ''image_inputs'']], Returned)
                        else (t2, log, Returned)))
      | _ \<Rightarrow> (t, [SkipNoInputs task], Returned))"

section \<open>\<^verbatim>\<open>main\<close>\<close>

text \<open>
  The loop of \<^verbatim>\<open>main\<close> over \<^verbatim>\<open>sorted(task_dirs)\<close>, on the entries of the root and the
  text printed so far. The task folder is looked up when its turn comes, as the source
  reaches it through its path.
  \<^verbatim>\<open>
  for task in sorted(task_dirs):
      if task.name.startswith('.'):
          continue
      print(f"Processing task folder: {task.name}")
      process_task(task, move_files=args.move, dry_run=args.dry_run)
  \<close>
\<close>

fun run_tasks ::
  "env \<Rightarrow> bool \<Rightarrow> bool \<Rightarrow> string list \<Rightarrow> dir \<times> msg list \<Rightarrow> dir \<times> msg list \<times> outcome"
where
  "run_tasks env move_files dry_run [] (es, log) = (es, log, Returned)"
| "run_tasks env move_files dry_run (task # tasks) (es, log) =
     (if take 1 task = ''.'' then run_tasks env move_files dry_run tasks (es, log)
      else
        (case map_of es task of
           Some (Dir t) \<Rightarrow>
             (case process_task env task move_files dry_run t of
                (t', log', Returned) \<Rightarrow>
                  run_tasks env move_files dry_run tasks
                    (AList.update task (Dir t') es, log @ ProcessingTask task # log')
              | (t', log', Raised e) \<Rightarrow>
                  (AList.update task (Dir t') es, log @ ProcessingTask task # log', Raised e))
         | _ \<Rightarrow>
             run_tasks env move_files dry_run tasks
               (es, log @ [ProcessingTask task, SkipNoInputs task])))"

text \<open>
  \<^verbatim>\<open>main\<close>, after the arguments are parsed: \<open>root\<close> is what the path
  \<^verbatim>\<open>args.dataset_root\<close> names, \<open>None\<close> when nothing is there. Paths under one root
  compare by their last component (on a POSIX system, where case counts).
  \<^verbatim>\<open>
  if not root.exists() or not root.is_dir():
      print("dataset_root not found or not a directory:", root); return
  task_dirs = [p for p in root.iterdir() if p.is_dir()]
  if not task_dirs:
      print("No task folders found under", root); return
  print(f"Found {len(task_dirs)} task folder(s) under {root}")
  for task in sorted(task_dirs): ...
  print("Done.")
  \<close>
\<close>

definition task_dirs :: "dir \<Rightarrow> string list" where
  "task_dirs es = map fst (filter (\<lambda>p. is_dir (snd p)) es)"

definition main :: "env \<Rightarrow> bool \<Rightarrow> bool \<Rightarrow> node option \<Rightarrow> node option \<times> msg list \<times> outcome" where
  "main env move_files dry_run root =
     (case root of
        Some (Dir es) \<Rightarrow>
          if task_dirs es = [] then (root, [NoTaskFolders], Returned)
          else
            (case run_tasks env move_files dry_run (sort (task_dirs es))
                    (es, [Found (length (task_dirs es))]) of
               (es', log, Returned) \<Rightarrow> (Some (Dir es'), log @ [Done], Returned)
             | (es', log, Raised e) \<Rightarrow> (Some (Dir es'), log, Raised e))
      | _ \<Rightarrow> (root, [RootNotFound], Returned))"

section \<open>Inputs for the examples\<close>

definition no_faults :: env where
  "no_faults = \<lparr>transfer_fault = (\<lambda>task name. None), rmdir_fault = (\<lambda>task. False)\<rparr>"

definition mixed_numbers :: dir where
  "mixed_numbers = [(''10.png'', File ''x''), (''2.png'', File ''y''), (''02.jpg'', File ''z'')]"

definition example_inputs :: dir where
  "example_inputs =
     [(''2.png'', File ''two''), (''10.png'', File ''ten''), (''1.jpg'', File ''one''),
      (''banner.png'', File ''banner'')]"

definition example_task :: dir where
  "example_task =
     [(''image_inputs'', Dir example_inputs), (''T1.log'', File ''log''),
      (''result.json'', File ''{}'')]"

definition example_root :: dir where
  "example_root =
     [(''T1'', Dir example_task), (''.cache'', Dir []), (''A'', Dir []),
      (''notes.txt'', File '''')]"

definition empty_inputs_task :: dir where
  "empty_inputs_task = [(''image_inputs'', Dir [(''notes.txt'', File ''x'')])]"

text \<open>
  The names of the task folders a run announces with \<^verbatim>\<open>Processing task folder: ...\<close>,
  in the order of the output: the folders \<^verbatim>\<open>process_task\<close> was called on.
\<close>

definition announced :: "msg list \<Rightarrow> string list" where
  "announced log = concat (map (\<lambda>m. case m of ProcessingTask n \<Rightarrow> [n] | _ \<Rightarrow> []) log)"

section \<open>Reports of failures\<close>

text \<open>
  The line an \<^verbatim>\<open>except\<close> branch of the loop prints for the file at index \<open>i\<close>:
  \<^verbatim>\<open>[error] moving src -> dest: e\<close> or \<^verbatim>\<open>[error] copying src -> dest: e\<close>.
\<close>

definition error_line :: "bool \<Rightarrow> string \<Rightarrow> nat \<Rightarrow> string \<Rightarrow> string \<Rightarrow> msg" where
  "error_line move_files task i name e =
     (if move_files then ErrorMoving [task, ''image_inputs'', name] [task, ''trajectory'', new_name i name] e
      else ErrorCopying [task, ''image_inputs'', name] [task, ''trajectory'', new_name i name] e)"

fun is_error :: "msg \<Rightarrow> bool" where
  "is_error (ErrorMoving src dest e) = True"
| "is_error (ErrorCopying src dest e) = True"
| "is_error m = False"

section \<open>Further inputs and environments for the examples\<close>



text \<open>
  A root in which the folder that comes first in the order holds a regular file named
  \<^verbatim>\<open>trajectory\<close>.
\<close>

definition blocked_root :: dir where
  "blocked_root =
     [(''B'', Dir [(''image_inputs'', Dir example_inputs)]),
      (''A'', Dir [(''image_inputs'', Dir []), (''trajectory'', File ''x'')])]"

text \<open>An environment in which every transfer of \<^verbatim>\<open>10.png\<close> fails.\<close>

definition denied :: env where
  "denied = \<lparr>transfer_fault = (\<lambda>task name. if name = ''10.png'' then Some ''Permission denied'' else None),
             rmdir_fault = (\<lambda>task. False)\<rparr>"

text \<open>An environment in which removing the input folder fails.\<close>

definition busy :: env where
  "busy = \<lparr>transfer_fault = (\<lambda>task name. None), rmdir_fault = (\<lambda>task. True)\<rparr>"

section \<open>The order of the gathered images\<close>

lemma sorted_gather: "sorted (map extract_sort_key (gather_image_files folder))"
  unfolding gather_image_files_def by (rule sorted_sort_key)

lemma distinct_gather:
  assumes "distinct (map fst folder)"
  shows "distinct (gather_image_files folder)"
  unfolding gather_image_files_def using assms
  by (simp add: distinct_map_filter)

text \<open>
  Claim C1. A name without a leading digit should sort after every name with one. The
  sentinel of the source is \<open>10 ^ 9\<close>, and a digit run can be worth more: in a folder
  holding \<^verbatim>\<open>banner.png\<close> and \<^verbatim>\<open>1700000000.png\<close> (a time stamp in seconds), the name
  without digits comes first.
\<close>

theorem sentinel_below_large_prefix:
  "gather_image_files [(''banner.png'', File ''a''), (''1700000000.png'', File ''b'')]
     = [''banner.png'', ''1700000000.png'']
   \<and> num_prefix ''banner.png'' = []
   \<and> num_prefix ''1700000000.png'' = ''1700000000''"
  by code_simp

text \<open>
  Claim C3. Of two gathered names that both start with digits, the one placed first has the
  smaller value of its digit run, or the same value and the name that is not greater in the
  order of strings; names of a real directory are distinct, so then it is the smaller name.
\<close>

theorem digit_prefixed_order:
  assumes "i < j" and "j < length (gather_image_files folder)"
    and "num_prefix (gather_image_files folder ! i) \<noteq> []"
    and "num_prefix (gather_image_files folder ! j) \<noteq> []"
  shows "(int_of_digits (num_prefix (gather_image_files folder ! i))
            < int_of_digits (num_prefix (gather_image_files folder ! j))
          \<or> (int_of_digits (num_prefix (gather_image_files folder ! i))
                = int_of_digits (num_prefix (gather_image_files folder ! j))
              \<and> gather_image_files folder ! i \<le> gather_image_files folder ! j))
         \<and> (distinct (map fst folder) \<longrightarrow>
              gather_image_files folder ! i \<noteq> gather_image_files folder ! j)"
proof -
  let ?xs = "gather_image_files folder"
  have "sorted (map extract_sort_key ?xs)" by (rule sorted_gather)
  then have "extract_sort_key (?xs ! i) \<le> extract_sort_key (?xs ! j)"
    using assms(1,2) by (simp add: sorted_iff_nth_mono)
  then have a: "int_of_digits (num_prefix (?xs ! i)) < int_of_digits (num_prefix (?xs ! j))
          \<or> (int_of_digits (num_prefix (?xs ! i)) = int_of_digits (num_prefix (?xs ! j))
              \<and> ?xs ! i \<le> ?xs ! j)"
    using assms(3,4) by (auto simp: extract_sort_key_def less_eq_prod_def)
  have b: "distinct (map fst folder) \<longrightarrow> ?xs ! i \<noteq> ?xs ! j"
    using distinct_gather[of folder] assms(1,2) by (auto simp: nth_eq_iff_index_eq)
  from a b show ?thesis by blast
qed

theorem digit_prefixed_order_witness:
  "gather_image_files mixed_numbers = [''02.jpg'', ''2.png'', ''10.png'']
   \<and> int_of_digits (num_prefix ''02.jpg'') = int_of_digits (num_prefix ''2.png'')
   \<and> ''02.jpg'' \<le> ''2.png''
   \<and> ''02.jpg'' \<noteq> ''2.png''"
proof -
  have g: "gather_image_files mixed_numbers = [''02.jpg'', ''2.png'', ''10.png'']"
    unfolding mixed_numbers_def by code_simp
  have v: "int_of_digits (num_prefix ''02.jpg'') = 2" "int_of_digits (num_prefix ''2.png'') = 2"
    by code_simp+
  have n: "num_prefix ''02.jpg'' \<noteq> []" "num_prefix ''2.png'' \<noteq> []"
    by code_simp+
  have "(0::nat) < 1" "1 < length (gather_image_files mixed_numbers)"
    "num_prefix (gather_image_files mixed_numbers ! 0) \<noteq> []"
    "num_prefix (gather_image_files mixed_numbers ! 1) \<noteq> []"
    using n by (simp_all add: g)
  from digit_prefixed_order[OF this] show ?thesis
    using g v by (simp add: mixed_numbers_def)
qed

section \<open>The root\<close>

text \<open>
  Claim C8. A root that is missing or is not a directory is reported and \<open>main\<close> returns;
  a root without subdirectories is reported and \<open>main\<close> returns. In both cases that one
  line is all the output, so no task folder is announced or processed, and the tree is as
  it was.
\<close>

theorem root_errors:
  "main env move_files dry_run None = (None, [RootNotFound], Returned)
   \<and> main env move_files dry_run (Some (File c)) = (Some (File c), [RootNotFound], Returned)
   \<and> ((\<forall>p \<in> set es. \<not> is_dir (snd p)) \<longrightarrow>
        main env move_files dry_run (Some (Dir es)) = (Some (Dir es), [NoTaskFolders], Returned))"
  by (auto simp: main_def task_dirs_def filter_empty_conv)

theorem root_errors_witness:
  "main no_faults True False None = (None, [RootNotFound], Returned)
   \<and> main no_faults True False (Some (File ''x'')) = (Some (File ''x''), [RootNotFound], Returned)
   \<and> main no_faults True False (Some (Dir [(''notes.txt'', File ''x'')]))
       = (Some (Dir [(''notes.txt'', File ''x'')]), [NoTaskFolders], Returned)"
  using root_errors[of no_faults True False "''x''" "[(''notes.txt'', File ''x'')]"]
  by simp

section \<open>Dry runs\<close>

lemma transfer_all_dry:
  "transfer_all env task mv True i names (ins, tr, log) =
     (ins, tr,
      log @ map (\<lambda>p. DryRun (if mv then ''move'' else ''copy'') (snd p) (new_name (fst p) (snd p)))
              (enumerate i names))"
  by (induction names arbitrary: i log) (simp_all add: transfer_def)

lemma process_task_dry:
  "process_task env task mv True t =
       (t,
        (case map_of t ''image_inputs'' of
           Some (Dir ins) \<Rightarrow>
             if gather_image_files ins = [] then [SkipNoImages task]
             else Processing task (length (gather_image_files ins)) #
                  map (\<lambda>p. DryRun (if mv then ''move'' else ''copy'') (snd p)
                              (new_name (fst p) (snd p)))
                      (enumerate 0 (gather_image_files ins))
         | _ \<Rightarrow> [SkipNoInputs task]),
        Returned)"
  by (simp add: process_task_def Let_def transfer_all_dry split: option.splits node.splits)

lemma run_tasks_dry:
  "fst (run_tasks env mv True tasks (es, log)) = es
   \<and> snd (snd (run_tasks env mv True tasks (es, log))) = Returned"
proof (induction tasks arbitrary: log)
  case Nil
  show ?case by simp
next
  case (Cons task tasks)
  show ?case
  proof (cases "map_of es task")
    case None
    then show ?thesis using Cons.IH by simp
  next
    case (Some nd)
    show ?thesis
    proof (cases nd)
      case (File c)
      then show ?thesis using Some Cons.IH by simp
    next
      case (Dir t)
      then have "AList.update task (Dir t) es = es"
        using Some by (simp add: update_triv)
      then show ?thesis using Some Dir Cons.IH
        by (simp add: process_task_dry)
    qed
  qed
qed

lemma main_dry:
  "fst (main env mv True root) = root \<and> snd (snd (main env mv True root)) = Returned"
proof (cases root)
  case None
  then show ?thesis by (simp add: main_def)
next
  case (Some nd)
  show ?thesis
  proof (cases nd)
    case (File c)
    then show ?thesis using Some by (simp add: main_def)
  next
    case (Dir es)
    obtain es' log oc where
      r: "run_tasks env mv True (sort (task_dirs es)) (es, [Found (length (task_dirs es))])
            = (es', log, oc)"
      by (cases "run_tasks env mv True (sort (task_dirs es)) (es, [Found (length (task_dirs es))])")
        auto
    from run_tasks_dry[of env mv "sort (task_dirs es)" es "[Found (length (task_dirs es))]"] r
    have "es' = es" "oc = Returned" by simp_all
    then show ?thesis using Some Dir r by (simp add: main_def)
  qed
qed

text \<open>
  Claim C4. With \<^verbatim>\<open>--dry-run\<close>, whatever the root, the task folder and the move flag:
  the tree after \<open>main\<close> is the tree before it and \<open>main\<close> returns; a task folder is left
  as it was (no trajectory folder is made, nothing is copied, moved or removed), and what
  \<open>process_task\<close> prints is the skip line, or the count line followed by one
  \<^verbatim>\<open>[dry-run]\<close> line for each gathered image, in order, naming the action, the source
  and the destination it would have.
\<close>

theorem dry_run_changes_nothing:
  "fst (main env move_files True root) = root
   \<and> snd (snd (main env move_files True root)) = Returned
   \<and> process_task env task move_files True t =
       (t,
        (case map_of t ''image_inputs'' of
           Some (Dir ins) \<Rightarrow>
             if gather_image_files ins = [] then [SkipNoImages task]
             else Processing task (length (gather_image_files ins)) #
                  map (\<lambda>p. DryRun (if move_files then ''move'' else ''copy'') (snd p)
                              (''step_'' @ dec (fst p) @ ''_screenshot'' @ lower (suffix (snd p))))
                      (enumerate 0 (gather_image_files ins))
         | _ \<Rightarrow> [SkipNoInputs task]),
        Returned)"
proof (intro conjI)
  show "fst (main env move_files True root) = root"
    using main_dry[of env move_files root] by blast
  show "snd (snd (main env move_files True root)) = Returned"
    using main_dry[of env move_files root] by blast
  show "process_task env task move_files True t =
       (t,
        (case map_of t ''image_inputs'' of
           Some (Dir ins) \<Rightarrow>
             if gather_image_files ins = [] then [SkipNoImages task]
             else Processing task (length (gather_image_files ins)) #
                  map (\<lambda>p. DryRun (if move_files then ''move'' else ''copy'') (snd p)
                              (''step_'' @ dec (fst p) @ ''_screenshot'' @ lower (suffix (snd p))))
                      (enumerate 0 (gather_image_files ins))
         | _ \<Rightarrow> [SkipNoInputs task]),
        Returned)"
    by (rule process_task_dry[unfolded new_name_def])
qed

theorem dry_run_changes_nothing_witness:
  "main no_faults True True (Some (Dir example_root)) =
     (Some (Dir example_root),
      [Found 3, ProcessingTask ''A'', SkipNoInputs ''A'', ProcessingTask ''T1'',
       Processing ''T1'' 4,
       DryRun ''move'' ''1.jpg'' ''step_0_screenshot.jpg'',
       DryRun ''move'' ''2.png'' ''step_1_screenshot.png'',
       DryRun ''move'' ''10.png'' ''step_2_screenshot.png'',
       DryRun ''move'' ''banner.png'' ''step_3_screenshot.png'', Done],
      Returned)"
proof -
  have log: "fst (snd (main no_faults True True (Some (Dir example_root)))) =
      [Found 3, ProcessingTask ''A'', SkipNoInputs ''A'', ProcessingTask ''T1'',
       Processing ''T1'' 4,
       DryRun ''move'' ''1.jpg'' ''step_0_screenshot.jpg'',
       DryRun ''move'' ''2.png'' ''step_1_screenshot.png'',
       DryRun ''move'' ''10.png'' ''step_2_screenshot.png'',
       DryRun ''move'' ''banner.png'' ''step_3_screenshot.png'', Done]"
    by code_simp
  from dry_run_changes_nothing[of no_faults True "Some (Dir example_root)" "''T1''" example_task]
  have "fst (main no_faults True True (Some (Dir example_root))) = Some (Dir example_root)"
    and "snd (snd (main no_faults True True (Some (Dir example_root)))) = Returned"
    by blast+
  with log show ?thesis
    by (cases "main no_faults True True (Some (Dir example_root))") simp
qed

section \<open>A task without images\<close>

text \<open>
  Claim C10. \<^verbatim>\<open>trajectory.mkdir(exist_ok=True)\<close> comes before the images are gathered and
  is outside every \<^verbatim>\<open>try\<close>. When the task folder holds a regular file named
  \<^verbatim>\<open>trajectory\<close>, it raises \<^verbatim>\<open>FileExistsError\<close>: no skip line is printed and nothing is
  created, so the claim does not hold for every task with an input folder without images.
\<close>

theorem skipped_task_blocked_by_file:
  "process_task no_faults ''T'' False False
       [(''image_inputs'', Dir []), (''trajectory'', File ''x'')]
     = ([(''image_inputs'', Dir []), (''trajectory'', File ''x'')], [], Raised ''FileExistsError'')"
  by code_simp

text \<open>
  Claim C10, amended. Without \<^verbatim>\<open>--dry-run\<close>, for a task whose input folder exists and
  holds no recognised image, and whose \<^verbatim>\<open>trajectory\<close> is not a regular file: the only
  output is the empty-folder skip line and the call returns, yet the trajectory folder
  exists afterwards; when it was not there before, the task folder has gained it, empty.
\<close>

theorem skipped_task_gains_trajectory:
  assumes "map_of t ''image_inputs'' = Some (Dir ins)" and "gather_image_files ins = []"
    and "\<forall>c. map_of t ''trajectory'' \<noteq> Some (File c)"
  shows "snd (process_task env task move_files False t) = ([SkipNoImages task], Returned)
     \<and> (\<exists>es. map_of (fst (process_task env task move_files False t)) ''trajectory'' = Some (Dir es))
     \<and> (map_of t ''trajectory'' = None \<longrightarrow>
          fst (process_task env task move_files False t) = t @ [(''trajectory'', Dir [])])"
  using assms
  by (auto simp: process_task_def mkdir_exist_ok_def Let_def map_add_def
           split: option.splits node.splits)

theorem skipped_task_gains_trajectory_witness:
  "process_task no_faults ''T'' True False empty_inputs_task
     = (empty_inputs_task @ [(''trajectory'', Dir [])], [SkipNoImages ''T''], Returned)"
proof -
  have a: "map_of empty_inputs_task ''image_inputs'' = Some (Dir [(''notes.txt'', File ''x'')])"
    by (simp add: empty_inputs_task_def)
  have b: "gather_image_files [(''notes.txt'', File ''x'')] = []"
    by code_simp
  have c: "\<forall>c. map_of empty_inputs_task ''trajectory'' \<noteq> Some (File c)"
    by (simp add: empty_inputs_task_def)
  have d: "map_of empty_inputs_task ''trajectory'' = None"
    by (simp add: empty_inputs_task_def)
  from skipped_task_gains_trajectory[OF a b c, of no_faults "''T''" True] d show ?thesis
    by (cases "process_task no_faults ''T'' True False empty_inputs_task") simp
qed

section \<open>The task folders of a run\<close>

lemma announced_append [simp]: "announced (xs @ ys) = announced xs @ announced ys"
  by (simp add: announced_def)

lemma announced_simps [simp]:
  "announced [] = []"
  "announced (ProcessingTask n # log) = n # announced log"
  "announced (SkipNoInputs task # log) = announced log"
  "announced (SkipNoImages task # log) = announced log"
  "announced (Processing task k # log) = announced log"
  "announced (DryRun a b c # log) = announced log"
  "announced (ErrorMoving p q e # log) = announced log"
  "announced (ErrorCopying p q e # log) = announced log"
  "announced (RemovedEmpty p # log) = announced log"
  "announced (Found k # log) = announced log"
  "announced (Done # log) = announced log"
  "announced (NoTaskFolders # log) = announced log"
  "announced (RootNotFound # log) = announced log"
  by (simp_all add: announced_def)

lemma transfer_announced:
  "announced (snd (snd (transfer env task mv dry i name st))) = announced (snd (snd st))"
  by (cases st) (auto simp: transfer_def Let_def split: option.splits sum.splits prod.splits)

lemma transfer_all_announced:
  "announced (snd (snd (transfer_all env task mv dry i names st))) = announced (snd (snd st))"
  by (induction names arbitrary: i st) (simp_all add: transfer_announced)

lemma transfer_all_announced_start:
  "announced (snd (snd (transfer_all env task mv dry i names (ins, tr, [Processing task k])))) = []"
  using transfer_all_announced[of env task mv dry i names "(ins, tr, [Processing task k])"]
  by simp

lemma process_task_announced:
  "announced (fst (snd (process_task env task mv dry t))) = []"
  by (simp add: process_task_def Let_def split_beta transfer_all_announced_start
        split: option.split node.split sum.split)

lemma run_tasks_announced:
  assumes "run_tasks env mv dry tasks (es, log0) = (es', log, oc)"
  shows "(\<exists>k. announced log = announced log0 @ take k (filter (\<lambda>n. take 1 n \<noteq> ''.'') tasks))
       \<and> (oc = Returned \<longrightarrow> announced log = announced log0 @ filter (\<lambda>n. take 1 n \<noteq> ''.'') tasks)"
  using assms
proof (induction tasks arbitrary: es log0)
  case Nil
  then show ?case by auto
next
  case (Cons task tasks)
  let ?vis = "\<lambda>n. take 1 n \<noteq> ''.''"
  show ?case
  proof (cases "take 1 task = ''.''")
    case True
    with Cons.prems have "run_tasks env mv dry tasks (es, log0) = (es', log, oc)" by simp
    from Cons.IH[OF this] show ?thesis using True by simp
  next
    case False
    have step: "(\<exists>k. announced log = announced log0 @ take k (filter ?vis (task # tasks)))
       \<and> (oc = Returned \<longrightarrow> announced log = announced log0 @ filter ?vis (task # tasks))"
      if r: "run_tasks env mv dry tasks (es1, log1) = (es', log, oc)"
        and l1: "announced log1 = announced log0 @ [task]" for es1 log1
    proof -
      from Cons.IH[OF r] obtain k where
        k: "announced log = announced log1 @ take k (filter ?vis tasks)"
        and f: "oc = Returned \<longrightarrow> announced log = announced log1 @ filter ?vis tasks"
        by blast
      have "announced log = announced log0 @ take (Suc k) (filter ?vis (task # tasks))"
        using k l1 False by simp
      moreover have "oc = Returned \<longrightarrow> announced log = announced log0 @ filter ?vis (task # tasks)"
        using f l1 False by simp
      ultimately show ?thesis by blast
    qed
    consider (dir) t where "map_of es task = Some (Dir t)"
      | (other) "\<forall>t. map_of es task \<noteq> Some (Dir t)" by blast
    then show ?thesis
    proof cases
      case other
      then have "run_tasks env mv dry tasks (es, log0 @ [ProcessingTask task, SkipNoInputs task]) = (es', log, oc)"
        using Cons.prems False by (simp split: option.splits node.splits)
      then show ?thesis by (rule step) simp
    next
      case dir
      obtain t' log' oc' where p: "process_task env task mv dry t = (t', log', oc')"
        by (cases "process_task env task mv dry t") auto
      have al: "announced log' = []"
        using process_task_announced[of env task mv dry t] p by simp
      show ?thesis
      proof (cases oc')
        case Returned
        then have "run_tasks env mv dry tasks (AList.update task (Dir t') es, log0 @ ProcessingTask task # log') = (es', log, oc)"
          using Cons.prems False dir p by simp
        then show ?thesis by (rule step) (simp add: al)
      next
        case (Raised e)
        then have "log = log0 @ ProcessingTask task # log'" "oc = Raised e"
          using Cons.prems False dir p by simp_all
        then have "announced log = announced log0 @ take 1 (filter ?vis (task # tasks))" "oc \<noteq> Returned"
          using False al by simp_all
        then show ?thesis by blast
      qed
    qed
  qed
qed

lemma is_dir_iff: "is_dir nd = (\<exists>d. nd = Dir d)"
  by (cases nd) simp_all

lemma set_task_dirs: "set (task_dirs es) = {n. \<exists>d. (n, Dir d) \<in> set es}"
proof (rule set_eqI)
  fix n
  have "n \<in> set (task_dirs es) \<longleftrightarrow> (\<exists>nd. (n, nd) \<in> set es \<and> is_dir nd)"
    unfolding task_dirs_def by (induction es) auto
  then show "n \<in> set (task_dirs es) \<longleftrightarrow> n \<in> {n. \<exists>d. (n, Dir d) \<in> set es}"
    by (auto simp: is_dir_iff)
qed

lemma visible_iff: "(take 1 n \<noteq> ''.'') = (\<not> (n \<noteq> [] \<and> hd n = CHR ''.''))"
  by (cases n) auto

section \<open>Decimal indices and destination names\<close>

subsection \<open>dec and new_name\<close>

lemma int_of_digits_snoc: "int_of_digits (ds @ [c]) = 10 * int_of_digits ds + digit_val c"
  by (simp add: int_of_digits_def)

lemma digit_val_char: "(k::nat) < 10 \<Longrightarrow> digit_val (char_of (48 + k)) = int k"
  by (simp add: digit_val_def)

lemma is_digit_char: "(k::nat) < 10 \<Longrightarrow> is_digit (char_of (48 + k))"
  by (simp add: is_digit_def)

lemma int_of_digits_dec: "int_of_digits (dec n) = int n"
proof (induction n rule: dec.induct)
  case (1 n)
  show ?case
  proof (cases "n < 10")
    case True
    then show ?thesis
      by (subst dec.simps) (simp add: int_of_digits_def digit_val_char)
  next
    case False
    have "int_of_digits (dec n) = 10 * int_of_digits (dec (n div 10)) + int (n mod 10)"
      using False by (subst dec.simps) (simp add: int_of_digits_snoc digit_val_char)
    also have "\<dots> = 10 * int (n div 10) + int (n mod 10)"
      using 1 False by simp
    also have "\<dots> = int (10 * (n div 10) + n mod 10)"
      by (simp only: of_nat_add of_nat_mult of_nat_numeral)
    also have "\<dots> = int n" by simp
    finally show ?thesis .
  qed
qed

lemma dec_digits: "c \<in> set (dec n) \<Longrightarrow> is_digit c"
proof (induction n arbitrary: c rule: dec.induct)
  case (1 n)
  show ?case
  proof (cases "n < 10")
    case True
    then show ?thesis using "1.prems"
      by (subst (asm) dec.simps) (simp add: is_digit_char)
  next
    case False
    then have "c \<in> set (dec (n div 10)) \<or> c = char_of (48 + n mod 10)"
      using "1.prems" by (subst (asm) dec.simps) auto
    then show ?thesis using 1(1)[OF False] by (auto simp: is_digit_char)
  qed
qed

lemma dec_inj: "dec i = dec j \<Longrightarrow> i = j"
proof -
  assume "dec i = dec j"
  then have "int_of_digits (dec i) = int_of_digits (dec j)" by (rule arg_cong)
  then show "i = j" by (simp only: int_of_digits_dec of_nat_eq_iff)
qed

lemma num_prefix_dec: "num_prefix (dec i @ ''_screenshot'' @ e) = dec i"
proof -
  have "takeWhile is_digit (dec i @ (''_screenshot'' @ e)) = dec i @ takeWhile is_digit (''_screenshot'' @ e)"
    by (rule takeWhile_append2) (rule dec_digits)
  moreover have "takeWhile is_digit (''_screenshot'' @ e) = []"
    by (simp add: is_digit_def)
  ultimately show ?thesis by (simp add: num_prefix_def)
qed

lemma new_name_inj: "new_name i a = new_name j b \<Longrightarrow> i = j"
proof -
  assume "new_name i a = new_name j b"
  then have "dec i @ ''_screenshot'' @ lower (suffix a) = dec j @ ''_screenshot'' @ lower (suffix b)"
    by (simp add: new_name_def)
  then have "num_prefix (dec i @ ''_screenshot'' @ lower (suffix a))
           = num_prefix (dec j @ ''_screenshot'' @ lower (suffix b))" by simp
  then have "dec i = dec j" by (simp only: num_prefix_dec)
  then show "i = j" by (rule dec_inj)
qed

section \<open>One transfer and the loop\<close>

lemma transfer_copy:
  "transfer env task False False i name (ins, tr, log) =
     (case transfer_fault env task name of
        Some e \<Rightarrow> (ins, tr, log @ [ErrorCopying [task, ''image_inputs'', name]
                                   [task, ''trajectory'', new_name i name] e])
      | None \<Rightarrow>
          (case shutil_copy2 name (new_name i name) ins tr of
             Inr tr' \<Rightarrow> (ins, tr', log)
           | Inl e \<Rightarrow> (ins, tr, log @ [ErrorCopying [task, ''image_inputs'', name]
                                   [task, ''trajectory'', new_name i name] e])))"
  by (simp add: transfer_def Let_def split: option.split sum.split)

lemma transfer_move:
  "transfer env task True False i name (ins, tr, log) =
     (case transfer_fault env task name of
        Some e \<Rightarrow> (ins, tr, log @ [ErrorMoving [task, ''image_inputs'', name]
                                   [task, ''trajectory'', new_name i name] e])
      | None \<Rightarrow>
          (case shutil_move name (new_name i name) ins tr of
             Inr (ins', tr') \<Rightarrow> (ins', tr', log)
           | Inl e \<Rightarrow> (ins, tr, log @ [ErrorMoving [task, ''image_inputs'', name]
                                   [task, ''trajectory'', new_name i name] e])))"
  by (simp add: transfer_def Let_def split: option.split sum.split prod.split)

lemma copy2_frame:
  "shutil_copy2 name dst ins tr = Inr tr' \<Longrightarrow> k \<noteq> dst \<Longrightarrow> map_of tr' k = map_of tr k"
  by (auto simp: shutil_copy2_def update_conv' split: option.splits node.splits)

lemma move_frame:
  "shutil_move name dst ins tr = Inr (ins', tr') \<Longrightarrow> k \<noteq> dst \<Longrightarrow> map_of tr' k = map_of tr k"
  by (auto simp: shutil_move_def update_conv' split: option.splits node.splits)

lemma move_source:
  "shutil_move name dst ins tr = Inr (ins', tr') \<Longrightarrow> ins' = AList.delete name ins"
  by (auto simp: shutil_move_def split: option.splits node.splits)

lemma transfer_tr_frame:
  assumes "k \<noteq> new_name i name"
  shows "map_of (fst (snd (transfer env task mv dry i name (ins, tr, log)))) k = map_of tr k"
proof (cases dry)
  case True
  then show ?thesis by (simp add: transfer_def Let_def)
next
  case False
  show ?thesis
  proof (cases mv)
    case True
    show ?thesis using assms \<open>\<not> dry\<close> True
      by (auto simp: transfer_move move_frame split: option.splits sum.splits prod.splits)
  next
    case False
    show ?thesis using assms \<open>\<not> dry\<close> False
      by (auto simp: transfer_copy copy2_frame split: option.splits sum.splits)
  qed
qed

lemma transfer_all_tr_frame:
  assumes "\<forall>p < length names. k \<noteq> new_name (i + p) (names ! p)"
  shows "map_of (fst (snd (transfer_all env task mv dry i names (ins, tr, log)))) k = map_of tr k"
  using assms
proof (induction names arbitrary: i ins tr log)
  case Nil
  show ?case by simp
next
  case (Cons n ns)
  obtain ins1 tr1 log1 where s: "transfer env task mv dry i n (ins, tr, log) = (ins1, tr1, log1)"
    by (cases "transfer env task mv dry i n (ins, tr, log)") auto
  have k0: "k \<noteq> new_name i n" using Cons.prems by auto
  have "\<forall>p < length ns. k \<noteq> new_name (Suc i + p) (ns ! p)"
  proof (intro allI impI)
    fix p assume "p < length ns"
    then have "Suc p < length (n # ns)" by simp
    from Cons.prems[rule_format, OF this] show "k \<noteq> new_name (Suc i + p) (ns ! p)" by simp
  qed
  from Cons.IH[OF this, of ins1 tr1 log1]
  have "map_of (fst (snd (transfer_all env task mv dry (Suc i) ns (ins1, tr1, log1)))) k = map_of tr1 k" .
  moreover have "map_of tr1 k = map_of tr k"
    using transfer_tr_frame[OF k0, of env task mv dry ins tr log] s by simp
  ultimately show ?case using s by simp
qed

lemma transfer_all_tr_frame_index:
  assumes "j < i \<or> i + length names \<le> j"
  shows "map_of (fst (snd (transfer_all env task mv dry i names (ins, tr, log)))) (new_name j b)
           = map_of tr (new_name j b)"
proof (rule transfer_all_tr_frame, intro allI impI)
  fix p assume "p < length names"
  then have "j \<noteq> i + p" using assms by auto
  then show "new_name j b \<noteq> new_name (i + p) (names ! p)"
    using new_name_inj by blast
qed

lemma transfer_log_grows:
  "\<exists>m. snd (snd (transfer env task mv dry i name (ins, tr, log))) = log @ m"
  by (auto simp: transfer_def Let_def split: option.splits sum.splits prod.splits)

lemma transfer_all_log_grows:
  "\<exists>m. snd (snd (transfer_all env task mv dry i names (ins, tr, log))) = log @ m"
proof (induction names arbitrary: i ins tr log)
  case Nil
  show ?case by simp
next
  case (Cons n ns)
  obtain ins1 tr1 log1 where s: "transfer env task mv dry i n (ins, tr, log) = (ins1, tr1, log1)"
    by (cases "transfer env task mv dry i n (ins, tr, log)") auto
  obtain m1 where m1: "log1 = log @ m1"
    using transfer_log_grows[of env task mv dry i n ins tr log] s by auto
  obtain m2 where "snd (snd (transfer_all env task mv dry (Suc i) ns (ins1, tr1, log1))) = log1 @ m2"
    using Cons.IH[of "Suc i" ins1 tr1 log1] by blast
  then have "snd (snd (transfer_all env task mv dry i (n # ns) (ins, tr, log))) = log @ (m1 @ m2)"
    using s m1 by simp
  then show ?case by blast
qed

lemma transfer_fault_reported:
  assumes "transfer_fault env task name = Some e"
  shows "transfer env task mv False i name (ins, tr, log)
           = (ins, tr, log @ [error_line mv task i name e])"
  using assms by (cases mv) (simp_all add: transfer_move transfer_copy error_line_def)

lemma transfer_all_fault_reported:
  assumes "p < length names" and "transfer_fault env task (names ! p) = Some e"
  shows "error_line mv task (i + p) (names ! p) e
           \<in> set (snd (snd (transfer_all env task mv False i names (ins, tr, log))))"
  using assms
proof (induction names arbitrary: i ins tr log p)
  case Nil
  then show ?case by simp
next
  case (Cons n ns)
  obtain ins1 tr1 log1 where s: "transfer env task mv False i n (ins, tr, log) = (ins1, tr1, log1)"
    by (cases "transfer env task mv False i n (ins, tr, log)") auto
  show ?case
  proof (cases p)
    case 0
    then have "log1 = log @ [error_line mv task i n e]"
      using transfer_fault_reported[of env task n e mv i ins tr log] Cons.prems s by simp
    moreover obtain m where "snd (snd (transfer_all env task mv False (Suc i) ns (ins1, tr1, log1))) = log1 @ m"
      using transfer_all_log_grows[of env task mv False "Suc i" ns ins1 tr1 log1] by blast
    ultimately show ?thesis using s 0 by simp
  next
    case (Suc q)
    then have "q < length ns" "transfer_fault env task (ns ! q) = Some e"
      using Cons.prems by simp_all
    from Cons.IH[OF this, of "Suc i" ins1 tr1 log1] show ?thesis using s Suc by simp
  qed
qed

lemma transfer_source_frame:
  assumes "k \<noteq> name"
  shows "map_of (fst (transfer env task mv dry i name (ins, tr, log))) k = map_of ins k"
proof (cases "dry \<or> \<not> mv")
  case True
  then show ?thesis
    by (cases dry) (auto simp: transfer_def Let_def transfer_copy split: option.splits sum.splits)
next
  case False
  then have "\<not> dry" "mv" by simp_all
  then show ?thesis using assms
    by (auto simp: transfer_move map_of_delete dest!: move_source
             split: option.splits sum.splits prod.splits)
qed

lemma transfer_file:
  assumes "transfer_fault env task name = None" and "map_of ins name = Some (File c)"
    and "\<forall>sub. map_of tr (new_name i name) \<noteq> Some (Dir sub)"
  shows "transfer env task mv False i name (ins, tr, log)
           = (if mv then AList.delete name ins else ins,
              AList.update (new_name i name) (File c) tr, log)"
proof -
  have "shutil_copy2 name (new_name i name) ins tr = Inr (AList.update (new_name i name) (File c) tr)"
    using assms(2,3) by (auto simp: shutil_copy2_def split: option.splits node.splits)
  moreover have "shutil_move name (new_name i name) ins tr
      = Inr (AList.delete name ins, AList.update (new_name i name) (File c) tr)"
    using assms(2,3) by (auto simp: shutil_move_def split: option.splits node.splits)
  ultimately show ?thesis using assms(1)
    by (cases mv) (simp_all add: transfer_move transfer_copy)
qed

lemma transfer_all_content:
  assumes "distinct names" and "p < length names"
    and "transfer_fault env task (names ! p) = None"
    and "map_of ins (names ! p) = Some (File c)"
    and "\<forall>sub. map_of tr (new_name (i + p) (names ! p)) \<noteq> Some (Dir sub)"
  shows "map_of (fst (snd (transfer_all env task mv False i names (ins, tr, log))))
           (new_name (i + p) (names ! p)) = Some (File c)"
  using assms
proof (induction names arbitrary: i ins tr log p)
  case Nil
  then show ?case by simp
next
  case (Cons n ns)
  obtain ins1 tr1 log1 where s: "transfer env task mv False i n (ins, tr, log) = (ins1, tr1, log1)"
    by (cases "transfer env task mv False i n (ins, tr, log)") auto
  show ?case
  proof (cases p)
    case 0
    then have "tr1 = AList.update (new_name i n) (File c) tr"
      using transfer_file[of env task n ins c tr i mv log] Cons.prems s by simp
    then have "map_of tr1 (new_name i n) = Some (File c)" by (simp add: update_conv')
    moreover have "map_of (fst (snd (transfer_all env task mv False (Suc i) ns (ins1, tr1, log1)))) (new_name i n)
          = map_of tr1 (new_name i n)"
      by (rule transfer_all_tr_frame_index) simp
    ultimately show ?thesis using s 0 by simp
  next
    case (Suc q)
    have q: "q < length ns" and d: "distinct ns" and f: "transfer_fault env task (ns ! q) = None"
      using Cons.prems Suc by simp_all
    have ne: "ns ! q \<noteq> n" using Cons.prems(1) q by auto
    have src: "map_of ins1 (ns ! q) = Some (File c)"
      using transfer_source_frame[OF ne, of env task mv False i ins tr log] s Cons.prems(4) Suc by simp
    have "new_name (Suc i + q) (ns ! q) \<noteq> new_name i n"
      using new_name_inj[of "Suc i + q" "ns ! q" i n] by auto
    then have "map_of tr1 (new_name (Suc i + q) (ns ! q)) = map_of tr (new_name (Suc i + q) (ns ! q))"
      using transfer_tr_frame[of "new_name (Suc i + q) (ns ! q)" i n env task mv False ins tr log] s by simp
    then have nd: "\<forall>sub. map_of tr1 (new_name (Suc i + q) (ns ! q)) \<noteq> Some (Dir sub)"
      using Cons.prems(5) Suc by simp
    from Cons.IH[OF d q f src nd, of log1] show ?thesis using s Suc by simp
  qed
qed

section \<open>Copy mode, run twice\<close>







lemma entries_update_same [simp]: "entries (AList.update k (Dir d) t) k = d"
  by (simp add: entries_def update_conv')

lemma entries_update_other [simp]: "k' \<noteq> k \<Longrightarrow> entries (AList.update k v t) k' = entries t k'"
  by (simp add: entries_def update_conv')











section \<open>What a run does to the task folders\<close>

lemma entries_dir: "map_of es k = Some (Dir t) \<Longrightarrow> entries es k = t"
  by (simp add: entries_def)

lemma sorted_take_closed:
  assumes "sorted xs" and "a \<in> set (take k xs)" and "b \<in> set xs" and "b < a"
  shows "b \<in> set (take k (xs :: string list))"
proof -
  from assms(2) obtain i where i: "i < k" "i < length xs" "a = xs ! i"
    by (auto simp: in_set_conv_nth)
  from assms(3) obtain j where j: "j < length xs" "b = xs ! j"
    by (auto simp: in_set_conv_nth)
  have "j < k"
  proof (rule ccontr)
    assume "\<not> j < k"
    then have "i \<le> j" using i(1) by simp
    then have "xs ! i \<le> xs ! j" using assms(1) j(1) by (simp add: sorted_iff_nth_mono)
    then show False using assms(4) i(3) j(2) by simp
  qed
  then have "b = take k xs ! j" "j < length (take k xs)" using j by simp_all
  then show ?thesis by (metis nth_mem)
qed

lemma run_tasks_effect:
  assumes "distinct tasks"
    and "\<forall>task\<in>set tasks. \<exists>t. map_of es task = Some (Dir t)"
    and "run_tasks env mv dry tasks (es, log0) = (es', log, oc)"
  shows "\<exists>k. log = log0 @ concat (map (\<lambda>task. ProcessingTask task #
                       fst (snd (process_task env task mv dry (entries es task))))
                    (take k (filter (\<lambda>n. take 1 n \<noteq> ''.'') tasks)))
       \<and> (oc = Returned \<longrightarrow> take k (filter (\<lambda>n. take 1 n \<noteq> ''.'') tasks)
                              = filter (\<lambda>n. take 1 n \<noteq> ''.'') tasks)
       \<and> (\<forall>task\<in>set (take k (filter (\<lambda>n. take 1 n \<noteq> ''.'') tasks)).
             map_of es' task = Some (Dir (fst (process_task env task mv dry (entries es task)))))
       \<and> (\<forall>key. key \<notin> set (take k (filter (\<lambda>n. take 1 n \<noteq> ''.'') tasks))
               \<longrightarrow> map_of es' key = map_of es key)"
  using assms
proof (induction tasks arbitrary: es log0)
  case Nil
  then show ?case by simp
next
  case (Cons task tasks)
  let ?vis = "\<lambda>n. take 1 n \<noteq> ''.''"
  let ?f = "\<lambda>es task. ProcessingTask task # fst (snd (process_task env task mv dry (entries es task)))"
  have d: "distinct tasks" and notin: "task \<notin> set tasks" using Cons.prems(1) by simp_all
  show ?case
  proof (cases "take 1 task = ''.''")
    case True
    have dirs: "\<forall>task\<in>set tasks. \<exists>t. map_of es task = Some (Dir t)" using Cons.prems(2) by simp
    have r: "run_tasks env mv dry tasks (es, log0) = (es', log, oc)"
      using Cons.prems(3) True by simp
    from Cons.IH[OF d dirs r] show ?thesis using True by simp
  next
    case False
    obtain t where t: "map_of es task = Some (Dir t)" using Cons.prems(2) by auto
    have et: "entries es task = t" by (rule entries_dir[OF t])
    obtain t1 l1 oc1 where p: "process_task env task mv dry t = (t1, l1, oc1)"
      by (cases "process_task env task mv dry t") auto
    let ?es1 = "AList.update task (Dir t1) es"
    show ?thesis
    proof (cases oc1)
      case (Raised e)
      then have res: "es' = ?es1" "log = log0 @ ProcessingTask task # l1" "oc = Raised e"
        using Cons.prems(3) False t p by simp_all
      have a: "log = log0 @ concat (map (?f es) (take 1 (filter ?vis (task # tasks))))"
        using res(2) False et p by simp
      have b: "oc = Returned \<longrightarrow> take 1 (filter ?vis (task # tasks)) = filter ?vis (task # tasks)"
        using res(3) by simp
      have c: "\<forall>x\<in>set (take 1 (filter ?vis (task # tasks))).
                 map_of es' x = Some (Dir (fst (process_task env x mv dry (entries es x))))"
        using res(1) False et p by (simp add: update_conv')
      have e: "\<forall>key. key \<notin> set (take 1 (filter ?vis (task # tasks))) \<longrightarrow> map_of es' key = map_of es key"
        using res(1) False by (simp add: update_conv')
      show ?thesis by (rule exI[of _ 1]) (intro conjI a b c e)
    next
      case Returned
      then have r: "run_tasks env mv dry tasks (?es1, log0 @ ProcessingTask task # l1) = (es', log, oc)"
        using Cons.prems(3) False t p by simp
      have dirs: "\<forall>x\<in>set tasks. \<exists>t. map_of ?es1 x = Some (Dir t)"
        using Cons.prems(2) by (simp add: update_conv')
      from Cons.IH[OF d dirs r] obtain k where
        k1: "log = (log0 @ ProcessingTask task # l1) @ concat (map (?f ?es1) (take k (filter ?vis tasks)))"
        and k2: "oc = Returned \<longrightarrow> take k (filter ?vis tasks) = filter ?vis tasks"
        and k3: "\<forall>x\<in>set (take k (filter ?vis tasks)).
                   map_of es' x = Some (Dir (fst (process_task env x mv dry (entries ?es1 x))))"
        and k4: "\<forall>key. key \<notin> set (take k (filter ?vis tasks)) \<longrightarrow> map_of es' key = map_of ?es1 key"
        by blast
      let ?P = "take k (filter ?vis tasks)"
      have sub: "set ?P \<subseteq> set tasks"
        using set_take_subset[of k "filter ?vis tasks"] by auto
      have ne: "\<forall>x\<in>set ?P. x \<noteq> task" using sub notin by auto
      have same: "\<forall>x\<in>set ?P. entries ?es1 x = entries es x"
        using ne by simp
      have fs: "map (?f ?es1) ?P = map (?f es) ?P"
        by (rule map_cong) (use same in simp_all)
      have tk: "take (Suc k) (filter ?vis (task # tasks)) = task # ?P"
        using False by simp
      have k1': "log = (log0 @ ProcessingTask task # l1) @ concat (map (?f es) ?P)"
        using k1 by (simp only: fs)
      have a: "log = log0 @ concat (map (?f es) (take (Suc k) (filter ?vis (task # tasks))))"
        unfolding tk using k1' et p by simp
      have b: "oc = Returned \<longrightarrow> take (Suc k) (filter ?vis (task # tasks)) = filter ?vis (task # tasks)"
        unfolding tk using k2 False by simp
      have "task \<notin> set ?P" using sub notin by auto
      then have "map_of es' task = map_of ?es1 task" using k4 by blast
      then have mt: "map_of es' task = Some (Dir (fst (process_task env task mv dry (entries es task))))"
        using et p by (simp add: update_conv')
      have c: "\<forall>x\<in>set (take (Suc k) (filter ?vis (task # tasks))).
                 map_of es' x = Some (Dir (fst (process_task env x mv dry (entries es x))))"
        unfolding tk using mt k3 same by simp
      have e: "\<forall>key. key \<notin> set (take (Suc k) (filter ?vis (task # tasks))) \<longrightarrow> map_of es' key = map_of es key"
        unfolding tk using k4 by (simp add: update_conv')
      show ?thesis by (rule exI[of _ "Suc k"]) (intro conjI a b c e)
    qed
  qed
qed

lemma announced_processed:
  "announced (concat (map (\<lambda>task. ProcessingTask task #
       fst (snd (process_task env task mv dry (f task)))) P)) = P"
  by (induction P) (simp_all add: process_task_announced)

lemma task_dirs_are_dirs:
  assumes "distinct (map fst es)" and "task \<in> set (task_dirs es)"
  shows "\<exists>t. map_of es task = Some (Dir t)"
proof -
  from assms(2) obtain d where "(task, Dir d) \<in> set es" by (auto simp: set_task_dirs)
  then show ?thesis using assms(1) by auto
qed

text \<open>
  Claim C9. The loop of \<^verbatim>\<open>main\<close> calls \<^verbatim>\<open>process_task\<close> outside any \<^verbatim>\<open>try\<close>, and
  \<^verbatim>\<open>trajectory.mkdir(exist_ok=True)\<close> raises when the task folder holds a regular file
  named \<^verbatim>\<open>trajectory\<close>. In \<open>blocked_root\<close>, folder \<^verbatim>\<open>A\<close> comes first in the order and
  raises; the run ends there, and folder \<^verbatim>\<open>B\<close>, an immediate subdirectory that is not
  hidden, is never processed. So the folders processed are not always exactly the
  subdirectories that are not hidden.
\<close>

theorem blocked_task_ends_run:
  "main no_faults False False (Some (Dir blocked_root))
     = (Some (Dir blocked_root), [Found 2, ProcessingTask ''A''], Raised ''FileExistsError'')"
  by code_simp

text \<open>
  Claim C9, amended. For a root that is a directory (its names distinct, as the names in
  a directory are), let the processed folders be those announced in the output. They are
  in strictly ascending order of their names; each is an immediate subdirectory of the
  root whose name does not begin with a dot; when \<open>main\<close> returns they are exactly those
  subdirectories, and in every case no such subdirectory with a smaller name than a processed one
  is left out. The output is the count line, then for each processed folder in this order
  its announcement and the output of \<^verbatim>\<open>process_task\<close> on the folder as it was at the
  start, then \<^verbatim>\<open>Done.\<close> when \<open>main\<close> returns. In the tree afterwards every processed
  folder is what \<^verbatim>\<open>process_task\<close> made of it, and every other entry of the root, so
  every hidden subdirectory, is as it was.
\<close>

theorem task_enumeration:
  assumes "distinct (map fst es)"
    and "main env move_files dry_run (Some (Dir es)) = (root', log, oc)"
  shows "sorted (announced log) \<and> distinct (announced log)
     \<and> set (announced log) \<subseteq> {n. (\<exists>d. (n, Dir d) \<in> set es) \<and> \<not> (n \<noteq> [] \<and> hd n = CHR ''.'')}
     \<and> (oc = Returned \<longrightarrow>
          set (announced log) = {n. (\<exists>d. (n, Dir d) \<in> set es) \<and> \<not> (n \<noteq> [] \<and> hd n = CHR ''.'')})
     \<and> (\<forall>a b. a \<in> set (announced log) \<and> (\<exists>d. (b, Dir d) \<in> set es)
                 \<and> \<not> (b \<noteq> [] \<and> hd b = CHR ''.'') \<and> b < a \<longrightarrow> b \<in> set (announced log))
     \<and> ((\<exists>n d. (n, Dir d) \<in> set es) \<longrightarrow>
          log = Found (length (task_dirs es)) #
                concat (map (\<lambda>task. ProcessingTask task #
                               fst (snd (process_task env task move_files dry_run (entries es task))))
                          (announced log))
                @ (if oc = Returned then [Done] else []))
     \<and> (\<exists>es'. root' = Some (Dir es')
          \<and> (\<forall>task\<in>set (announced log).
                map_of es' task
                  = Some (Dir (fst (process_task env task move_files dry_run (entries es task)))))
          \<and> (\<forall>key. key \<notin> set (announced log) \<longrightarrow> map_of es' key = map_of es key))"
proof -
  let ?vis = "\<lambda>n. take 1 n \<noteq> ''.''"
  let ?V = "filter ?vis (sort (task_dirs es))"
  let ?S = "{n. (\<exists>d. (n, Dir d) \<in> set es) \<and> \<not> (n \<noteq> [] \<and> hd n = CHR ''.'')}"
  let ?f = "\<lambda>task. ProcessingTask task #
                fst (snd (process_task env task move_files dry_run (entries es task)))"
  have sa: "set ?V = ?S"
  proof (rule set_eqI)
    fix n
    show "n \<in> set ?V \<longleftrightarrow> n \<in> ?S"
      using set_task_dirs[of es] visible_iff[of n] by simp
  qed
  have sV: "sorted ?V" by (simp add: sorted_wrt_filter)
  have "distinct (task_dirs es)"
    using assms(1) by (simp add: task_dirs_def distinct_map_filter)
  then have dT: "distinct (sort (task_dirs es))" by simp
  then have dV: "distinct ?V" by simp
  have nonempty: "(\<exists>n d. (n, Dir d) \<in> set es) \<longleftrightarrow> task_dirs es \<noteq> []"
  proof -
    have "set (task_dirs es) \<noteq> {} \<longleftrightarrow> (\<exists>n d. (n, Dir d) \<in> set es)"
      unfolding set_task_dirs by blast
    then show ?thesis by simp
  qed
  have main: "\<exists>k es'. announced log = take k ?V \<and> (oc = Returned \<longrightarrow> take k ?V = ?V)
      \<and> (task_dirs es \<noteq> [] \<longrightarrow>
           log = Found (length (task_dirs es)) # concat (map ?f (take k ?V))
                 @ (if oc = Returned then [Done] else []))
      \<and> root' = Some (Dir es')
      \<and> (\<forall>task\<in>set (take k ?V). map_of es' task
             = Some (Dir (fst (process_task env task move_files dry_run (entries es task)))))
      \<and> (\<forall>key. key \<notin> set (take k ?V) \<longrightarrow> map_of es' key = map_of es key)"
  proof (cases "task_dirs es = []")
    case True
    then have "log = [NoTaskFolders]" "root' = Some (Dir es)" "oc = Returned"
      using assms(2) by (simp_all add: main_def)
    then have "announced log = take 0 ?V \<and> (oc = Returned \<longrightarrow> take 0 ?V = ?V)
      \<and> (task_dirs es \<noteq> [] \<longrightarrow>
           log = Found (length (task_dirs es)) # concat (map ?f (take 0 ?V))
                 @ (if oc = Returned then [Done] else []))
      \<and> root' = Some (Dir es)
      \<and> (\<forall>task\<in>set (take 0 ?V). map_of es task
             = Some (Dir (fst (process_task env task move_files dry_run (entries es task)))))
      \<and> (\<forall>key. key \<notin> set (take 0 ?V) \<longrightarrow> map_of es key = map_of es key)"
      using True by simp
    then show ?thesis by (intro exI[of _ 0] exI[of _ es])
  next
    case False
    let ?start = "[Found (length (task_dirs es))]"
    obtain es' log1 oc1 where
      r: "run_tasks env move_files dry_run (sort (task_dirs es)) (es, ?start) = (es', log1, oc1)"
      by (cases "run_tasks env move_files dry_run (sort (task_dirs es)) (es, ?start)") auto
    have dirs: "\<forall>task\<in>set (sort (task_dirs es)). \<exists>t. map_of es task = Some (Dir t)"
      using task_dirs_are_dirs[OF assms(1)] by simp
    from run_tasks_effect[OF dT dirs r] obtain k where
      k1: "log1 = ?start @ concat (map ?f (take k ?V))"
      and k2: "oc1 = Returned \<longrightarrow> take k ?V = ?V"
      and k3: "\<forall>task\<in>set (take k ?V). map_of es' task
                 = Some (Dir (fst (process_task env task move_files dry_run (entries es task))))"
      and k4: "\<forall>key. key \<notin> set (take k ?V) \<longrightarrow> map_of es' key = map_of es key"
      by blast
    have m: "root' = Some (Dir es') \<and> oc = oc1
      \<and> log = log1 @ (if oc = Returned then [Done] else [])"
    proof (cases oc1)
      case Returned
      then show ?thesis using assms(2) False r by (auto simp: main_def)
    next
      case (Raised e)
      then show ?thesis using assms(2) False r by (auto simp: main_def)
    qed
    have l: "log = Found (length (task_dirs es)) # concat (map ?f (take k ?V))
                 @ (if oc = Returned then [Done] else [])"
      using m k1 by simp
    have "announced log = announced (concat (map ?f (take k ?V)))"
      unfolding l by simp
    then have an: "announced log = take k ?V"
      by (simp only: announced_processed)
    have k2': "oc = Returned \<longrightarrow> take k ?V = ?V" using k2 m by simp
    have l': "task_dirs es \<noteq> [] \<longrightarrow>
           log = Found (length (task_dirs es)) # concat (map ?f (take k ?V))
                 @ (if oc = Returned then [Done] else [])"
      using l by simp
    have rt: "root' = Some (Dir es')" using m by simp
    show ?thesis
      by (rule exI[of _ k], rule exI[of _ es']) (intro conjI an k2' l' rt k3 k4)
  qed
  then obtain k es' where an: "announced log = take k ?V"
    and full: "oc = Returned \<longrightarrow> take k ?V = ?V"
    and l: "task_dirs es \<noteq> [] \<longrightarrow>
           log = Found (length (task_dirs es)) # concat (map ?f (take k ?V))
                 @ (if oc = Returned then [Done] else [])"
    and rt: "root' = Some (Dir es')"
    and tr: "\<forall>task\<in>set (take k ?V). map_of es' task
             = Some (Dir (fst (process_task env task move_files dry_run (entries es task))))"
    and fr: "\<forall>key. key \<notin> set (take k ?V) \<longrightarrow> map_of es' key = map_of es key"
    by blast
  have c1: "sorted (announced log)" unfolding an using sV by (rule sorted_wrt_take)
  have c2: "distinct (announced log)" unfolding an using dV by (rule distinct_take)
  have "set (announced log) \<subseteq> set ?V" unfolding an by (rule set_take_subset)
  then have c3: "set (announced log) \<subseteq> ?S" using sa by simp
  have c4: "oc = Returned \<longrightarrow> set (announced log) = ?S" using full an sa by simp
  have c5: "\<forall>a b. a \<in> set (announced log) \<and> (\<exists>d. (b, Dir d) \<in> set es)
                 \<and> \<not> (b \<noteq> [] \<and> hd b = CHR ''.'') \<and> b < a \<longrightarrow> b \<in> set (announced log)"
  proof (intro allI impI)
    fix a b
    assume h: "a \<in> set (announced log) \<and> (\<exists>d. (b, Dir d) \<in> set es)
                 \<and> \<not> (b \<noteq> [] \<and> hd b = CHR ''.'') \<and> b < a"
    then have "b \<in> ?S" by simp
    then have "b \<in> set ?V" using sa by simp
    moreover have "a \<in> set (take k ?V)" using h an by simp
    ultimately have "b \<in> set (take k ?V)" using sV h sorted_take_closed by blast
    then show "b \<in> set (announced log)" using an by simp
  qed
  have c6: "(\<exists>n d. (n, Dir d) \<in> set es) \<longrightarrow>
          log = Found (length (task_dirs es)) # concat (map ?f (announced log))
                @ (if oc = Returned then [Done] else [])"
    unfolding an nonempty by (rule l)
  have c7: "\<exists>es'. root' = Some (Dir es')
          \<and> (\<forall>task\<in>set (announced log). map_of es' task
                = Some (Dir (fst (process_task env task move_files dry_run (entries es task)))))
          \<and> (\<forall>key. key \<notin> set (announced log) \<longrightarrow> map_of es' key = map_of es key)"
    using rt tr fr an by simp
  show ?thesis by (intro conjI c1 c2 c3 c4 c5 c6 c7)
qed

theorem task_enumeration_witness:
  "main no_faults False False (Some (Dir example_root)) =
    (Some (Dir [(''T1'', Dir [(''image_inputs'', Dir example_inputs), (''T1.log'', File ''log''),
        (''result.json'', File ''{}''),
        (''trajectory'', Dir [(''step_0_screenshot.jpg'', File ''one''),
           (''step_1_screenshot.png'', File ''two''), (''step_2_screenshot.png'', File ''ten''),
           (''step_3_screenshot.png'', File ''banner'')])]),
       (''.cache'', Dir []), (''A'', Dir []), (''notes.txt'', File '''')]),
     [Found 3, ProcessingTask ''A'', SkipNoInputs ''A'', ProcessingTask ''T1'',
      Processing ''T1'' 4, Done], Returned)
   \<and> set [''A'', ''T1''] =
       {n. (\<exists>d. (n, Dir d) \<in> set example_root) \<and> \<not> (n \<noteq> [] \<and> hd n = CHR ''.'')}
   \<and> Some (Dir [(''image_inputs'', Dir example_inputs), (''T1.log'', File ''log''),
        (''result.json'', File ''{}''),
        (''trajectory'', Dir [(''step_0_screenshot.jpg'', File ''one''),
           (''step_1_screenshot.png'', File ''two''), (''step_2_screenshot.png'', File ''ten''),
           (''step_3_screenshot.png'', File ''banner'')])])
       = Some (Dir (fst (process_task no_faults ''T1'' False False (entries example_root ''T1''))))
   \<and> Some (Dir []) = map_of example_root ''.cache''"
proof -
  let ?E = "[(''T1'', Dir [(''image_inputs'', Dir example_inputs), (''T1.log'', File ''log''),
        (''result.json'', File ''{}''),
        (''trajectory'', Dir [(''step_0_screenshot.jpg'', File ''one''),
           (''step_1_screenshot.png'', File ''two''), (''step_2_screenshot.png'', File ''ten''),
           (''step_3_screenshot.png'', File ''banner'')])]),
       (''.cache'', Dir []), (''A'', Dir []), (''notes.txt'', File '''')]"
  let ?L = "[Found 3, ProcessingTask ''A'', SkipNoInputs ''A'', ProcessingTask ''T1'',
      Processing ''T1'' 4, Done]"
  have e: "main no_faults False False (Some (Dir example_root)) = (Some (Dir ?E), ?L, Returned)"
    by code_simp
  have d: "distinct (map fst example_root)"
    by (simp add: example_root_def)
  have a: "announced ?L = [''A'', ''T1'']"
    by simp
  note T = task_enumeration[OF d e, unfolded a]
  note T4 = T[THEN conjunct2, THEN conjunct2, THEN conjunct2, THEN conjunct1]
  note T7 = T[THEN conjunct2, THEN conjunct2, THEN conjunct2, THEN conjunct2, THEN conjunct2,
              THEN conjunct2]
  have s: "set [''A'', ''T1''] =
       {n. (\<exists>d. (n, Dir d) \<in> set example_root) \<and> \<not> (n \<noteq> [] \<and> hd n = CHR ''.'')}"
    by (rule mp[OF T4 refl])
  from T7 obtain es' where all: "Some (Dir ?E) = Some (Dir es')
    \<and> (\<forall>task\<in>set [''A'', ''T1'']. map_of es' task
       = Some (Dir (fst (process_task no_faults task False False (entries example_root task)))))
    \<and> (\<forall>key. key \<notin> set [''A'', ''T1''] \<longrightarrow> map_of es' key = map_of example_root key)"
    by (rule exE)
  note es' = all[THEN conjunct1]
  note tr = all[THEN conjunct2, THEN conjunct1]
  note fr = all[THEN conjunct2, THEN conjunct2]
  have eq: "es' = ?E" using es' by simp
  have t1: "map_of ?E ''T1''
       = Some (Dir (fst (process_task no_faults ''T1'' False False (entries example_root ''T1''))))"
    by (rule tr[unfolded eq, THEN bspec]) simp
  have c: "map_of ?E ''.cache'' = map_of example_root ''.cache''"
    by (rule fr[unfolded eq, THEN spec, THEN mp]) simp
  have t1': "map_of ?E ''T1'' = Some (Dir [(''image_inputs'', Dir example_inputs), (''T1.log'', File ''log''),
        (''result.json'', File ''{}''),
        (''trajectory'', Dir [(''step_0_screenshot.jpg'', File ''one''),
           (''step_1_screenshot.png'', File ''two''), (''step_2_screenshot.png'', File ''ten''),
           (''step_3_screenshot.png'', File ''banner'')])])"
    by simp
  have c': "map_of ?E ''.cache'' = Some (Dir [])" by simp
  show ?thesis
    using e s t1[unfolded t1'] c[unfolded c'] by (intro conjI)
qed

section \<open>Failures of single files\<close>

lemma set_gather: "set (gather_image_files ins) = fst ` {p \<in> set ins. is_image p}"
  by (auto simp: gather_image_files_def)

lemma gather_file:
  assumes "distinct (map fst ins)" and "n \<in> set (gather_image_files ins)"
  shows "\<exists>c. map_of ins n = Some (File c)"
proof -
  from assms(2) obtain nd where m: "(n, nd) \<in> set ins" and i: "is_image (n, nd)"
    by (auto simp: set_gather)
  from i obtain c where "nd = File c" by (cases nd) (simp_all add: is_image_def)
  then show ?thesis using assms(1) m by simp
qed

lemma gather_ext: "n \<in> set (gather_image_files ins) \<Longrightarrow> lower (suffix n) \<in> set IMG_EXTS"
  by (auto simp: set_gather is_image_def)

lemma mkdir_entries_eq: "mkdir_exist_ok k t = Inr t1 \<Longrightarrow> entries t1 k = entries t k"
  by (auto simp: mkdir_exist_ok_def entries_def map_add_def split: option.splits node.splits)

lemma mkdir_other: "mkdir_exist_ok k t = Inr t1 \<Longrightarrow> k' \<noteq> k \<Longrightarrow> map_of t1 k' = map_of t k'"
  by (auto simp: mkdir_exist_ok_def map_add_def split: option.splits node.splits)

lemma mkdir_succeeds:
  "\<forall>c. map_of t k \<noteq> Some (File c) \<Longrightarrow> \<exists>t1. mkdir_exist_ok k t = Inr t1"
  by (auto simp: mkdir_exist_ok_def split: option.splits node.splits)

lemma mkdir_raises:
  "mkdir_exist_ok k t = Inl e \<Longrightarrow> \<exists>c. map_of t k = Some (File c)"
  by (auto simp: mkdir_exist_ok_def split: option.splits node.splits)

lemma entries_delete_other: "k' \<noteq> k \<Longrightarrow> entries (AList.delete k t) k' = entries t k'"
  by (simp add: entries_def map_of_delete)

text \<open>
  What a call that is not a dry run and has images to transfer does: the loop runs on the
  entries of the two folders, and the task folder is put together from its result.
\<close>

lemma process_task_transfers:
  assumes ins: "map_of t ''image_inputs'' = Some (Dir ins)"
    and img: "gather_image_files ins \<noteq> []"
    and p: "process_task env task mv False t = (t', log, Returned)"
  obtains ins' tr' log0 where
    "transfer_all env task mv False 0 (gather_image_files ins)
       (ins, entries t ''trajectory'', [Processing task (length (gather_image_files ins))])
       = (ins', tr', log0)"
    and "entries t' ''trajectory'' = tr'"
    and "set log0 \<subseteq> set log"
    and "map_of t' ''image_inputs'' =
           (if mv \<and> \<not> rmdir_fault env task \<and> ins' = [] then None else Some (Dir ins'))"
proof -
  obtain t1 where mk: "mkdir_exist_ok ''trajectory'' t = Inr t1"
    using p ins by (cases "mkdir_exist_ok ''trajectory'' t") (simp_all add: process_task_def)
  have e1: "entries t1 ''trajectory'' = entries t ''trajectory''"
    by (rule mkdir_entries_eq[OF mk])
  let ?start = "[Processing task (length (gather_image_files ins))]"
  obtain ins' tr' log0 where
    l: "transfer_all env task mv False 0 (gather_image_files ins) (ins, entries t ''trajectory'', ?start)
          = (ins', tr', log0)"
    by (cases "transfer_all env task mv False 0 (gather_image_files ins) (ins, entries t ''trajectory'', ?start)") auto
  let ?t2 = "AList.update ''trajectory'' (Dir tr') (AList.update ''image_inputs'' (Dir ins') t1)"
  have t2_in: "map_of ?t2 ''image_inputs'' = Some (Dir ins')" by (simp add: update_conv')
  have t2_tr: "entries ?t2 ''trajectory'' = tr'" by simp
  show thesis
  proof (cases "mv \<and> \<not> rmdir_fault env task \<and> ins' = []")
    case True
    then have "t' = AList.delete ''image_inputs'' ?t2"
      and "log = log0 @ [RemovedEmpty [task, ''image_inputs'']]"
      using p ins mk img l e1 by (simp_all add: process_task_def Let_def)
    then have "entries t' ''trajectory'' = tr'" "set log0 \<subseteq> set log"
      "map_of t' ''image_inputs'' = None"
      by (auto simp: entries_delete_other delete_conv')
    then show ?thesis using that[OF l] True by simp
  next
    case False
    then have "t' = ?t2" and "log = log0"
      using p ins mk img l e1 by (auto simp: process_task_def Let_def)
    then have "entries t' ''trajectory'' = tr'" "set log0 \<subseteq> set log"
      "map_of t' ''image_inputs'' = Some (Dir ins')"
      using t2_in by simp_all
    then show ?thesis using that[OF l] False by simp
  qed
qed

lemma process_task_returns:
  assumes "\<forall>c. map_of t ''trajectory'' \<noteq> Some (File c)"
  shows "snd (snd (process_task env task mv dry t)) = Returned"
proof (cases dry)
  case True
  then show ?thesis by (simp add: process_task_dry)
next
  case False
  obtain t1 where mk: "mkdir_exist_ok ''trajectory'' t = Inr t1"
    using mkdir_succeeds[OF assms] by blast
  show ?thesis using False mk
    by (simp add: process_task_def Let_def split_beta split: option.split node.split)
qed

lemma process_task_raised:
  assumes "process_task env task mv dry t = (t', log, Raised e)"
  shows "\<exists>c. map_of t ''trajectory'' = Some (File c)"
proof (rule ccontr)
  assume "\<not> ?thesis"
  then have "\<forall>c. map_of t ''trajectory'' \<noteq> Some (File c)" by simp
  from process_task_returns[OF this, of env task mv dry] assms show False by simp
qed

lemma mkdir_gives_dir: "mkdir_exist_ok k t = Inr t1 \<Longrightarrow> \<exists>d. map_of t1 k = Some (Dir d)"
  by (auto simp: mkdir_exist_ok_def map_add_def split: option.splits node.splits)

lemma process_task_keeps_no_file:
  assumes "\<forall>c. map_of t ''trajectory'' \<noteq> Some (File c)"
  shows "\<forall>c. map_of (fst (process_task env task mv dry t)) ''trajectory'' \<noteq> Some (File c)"
proof (cases dry)
  case True
  then show ?thesis using assms by (simp add: process_task_dry)
next
  case False
  show ?thesis
  proof (cases "\<exists>ins. map_of t ''image_inputs'' = Some (Dir ins)")
    case nodir: False
    then have "fst (process_task env task mv dry t) = t"
      by (auto simp: process_task_def split: option.splits node.splits)
    then show ?thesis using assms by simp
  next
    case True
    then obtain ins where ins: "map_of t ''image_inputs'' = Some (Dir ins)" by blast
    obtain t1 where mk: "mkdir_exist_ok ''trajectory'' t = Inr t1"
      using mkdir_succeeds[OF assms] by blast
    obtain d where d: "map_of t1 ''trajectory'' = Some (Dir d)"
      using mkdir_gives_dir[OF mk] by blast
    show ?thesis
    proof (cases "gather_image_files ins = []")
      case True
      then have "fst (process_task env task mv dry t) = t1"
        using \<open>\<not> dry\<close> ins mk by (simp add: process_task_def)
      then show ?thesis using d by simp
    next
      case False
      let ?start = "[Processing task (length (gather_image_files ins))]"
      obtain ins' tr' log' where
        l: "transfer_all env task mv False 0 (gather_image_files ins) (ins, entries t1 ''trajectory'', ?start)
              = (ins', tr', log')"
        by (cases "transfer_all env task mv False 0 (gather_image_files ins) (ins, entries t1 ''trajectory'', ?start)") auto
      let ?t2 = "AList.update ''trajectory'' (Dir tr') (AList.update ''image_inputs'' (Dir ins') t1)"
      have "fst (process_task env task mv dry t) = ?t2
            \<or> fst (process_task env task mv dry t) = AList.delete ''image_inputs'' ?t2"
        using \<open>\<not> dry\<close> ins mk False l by (simp add: process_task_def Let_def)
      moreover have "map_of ?t2 ''trajectory'' = Some (Dir tr')" by (simp add: update_conv')
      moreover have "map_of (AList.delete ''image_inputs'' ?t2) ''trajectory'' = Some (Dir tr')"
        by (simp add: delete_conv' update_conv')
      ultimately show ?thesis by auto
    qed
  qed
qed

lemma run_tasks_returns:
  assumes "\<forall>task t. map_of es task = Some (Dir t) \<longrightarrow> (\<forall>c. map_of t ''trajectory'' \<noteq> Some (File c))"
  shows "snd (snd (run_tasks env mv dry tasks (es, log))) = Returned"
  using assms
proof (induction tasks arbitrary: es log)
  case Nil
  show ?case by simp
next
  case (Cons task tasks)
  show ?case
  proof (cases "take 1 task = ''.''")
    case True
    then show ?thesis using Cons.IH[OF Cons.prems] by simp
  next
    case False
    consider (dir) t where "map_of es task = Some (Dir t)"
      | (other) "\<forall>t. map_of es task \<noteq> Some (Dir t)" by blast
    then show ?thesis
    proof cases
      case other
      then show ?thesis using False Cons.IH[OF Cons.prems]
        by (simp split: option.splits node.splits)
    next
      case dir
      have nf: "\<forall>c. map_of t ''trajectory'' \<noteq> Some (File c)" using Cons.prems dir by blast
      obtain t1 l1 oc1 where p: "process_task env task mv dry t = (t1, l1, oc1)"
        by (cases "process_task env task mv dry t") auto
      have oc1: "oc1 = Returned"
        using process_task_returns[OF nf, of env task mv dry] p by simp
      have nf1: "\<forall>c. map_of t1 ''trajectory'' \<noteq> Some (File c)"
        using process_task_keeps_no_file[OF nf, of env task mv dry] p by simp
      let ?es1 = "AList.update task (Dir t1) es"
      have inv: "\<forall>k t0. map_of ?es1 k = Some (Dir t0) \<longrightarrow> (\<forall>c. map_of t0 ''trajectory'' \<noteq> Some (File c))"
      proof (intro allI impI)
        fix k t0 c
        assume h: "map_of ?es1 k = Some (Dir t0)"
        show "map_of t0 ''trajectory'' \<noteq> Some (File c)"
        proof (cases "k = task")
          case True
          then have "t0 = t1" using h by (simp add: update_conv')
          then show ?thesis using nf1 by simp
        next
          case False
          then have "map_of es k = Some (Dir t0)" using h by (simp add: update_conv')
          then show ?thesis using Cons.prems by blast
        qed
      qed
      show ?thesis using False dir p oc1 Cons.IH[OF inv] by simp
    qed
  qed
qed

lemma main_returns:
  "snd (snd (main env mv dry root)) = Returned
   \<or> (\<exists>es task t c. root = Some (Dir es) \<and> map_of es task = Some (Dir t)
                     \<and> map_of t ''trajectory'' = Some (File c))"
proof (cases "\<exists>es. root = Some (Dir es)")
  case False
  then have "snd (snd (main env mv dry root)) = Returned"
    by (auto simp: main_def split: option.splits node.splits)
  then show ?thesis by blast
next
  case True
  then obtain es where es: "root = Some (Dir es)" by blast
  show ?thesis
  proof (cases "\<exists>task t c. map_of es task = Some (Dir t) \<and> map_of t ''trajectory'' = Some (File c)")
    case True
    then show ?thesis using es by blast
  next
    case False
    then have inv: "\<forall>task t. map_of es task = Some (Dir t) \<longrightarrow> (\<forall>c. map_of t ''trajectory'' \<noteq> Some (File c))"
      by blast
    let ?r = "run_tasks env mv dry (sort (task_dirs es)) (es, [Found (length (task_dirs es))])"
    obtain es' l oc where r: "?r = (es', l, oc)" by (cases ?r) auto
    have "oc = Returned" using run_tasks_returns[OF inv, of env mv dry "sort (task_dirs es)" "[Found (length (task_dirs es))]"] r
      by simp
    then have "snd (snd (main env mv dry root)) = Returned"
      using es r by (simp add: main_def)
    then show ?thesis by blast
  qed
qed

lemma transfer_silent_or_reported:
  "snd (snd (transfer env task mv False i name (ins, tr, log))) = log
   \<or> (\<exists>e. transfer env task mv False i name (ins, tr, log)
            = (ins, tr, log @ [error_line mv task i name e]))"
proof (cases "transfer_fault env task name")
  case (Some e)
  then show ?thesis using transfer_fault_reported[of env task name e mv i ins tr log] by blast
next
  case None
  show ?thesis
  proof (cases mv)
    case True
    show ?thesis
    proof (cases "shutil_move name (new_name i name) ins tr")
      case (Inl e)
      then have "transfer env task mv False i name (ins, tr, log)
            = (ins, tr, log @ [error_line mv task i name e])"
        using True None by (simp add: transfer_move error_line_def)
      then show ?thesis by blast
    next
      case (Inr r)
      then have "snd (snd (transfer env task mv False i name (ins, tr, log))) = log"
        using True None by (cases r) (simp add: transfer_move)
      then show ?thesis by blast
    qed
  next
    case False
    show ?thesis
    proof (cases "shutil_copy2 name (new_name i name) ins tr")
      case (Inl e)
      then have "transfer env task mv False i name (ins, tr, log)
            = (ins, tr, log @ [error_line mv task i name e])"
        using False None by (simp add: transfer_copy error_line_def)
      then show ?thesis by blast
    next
      case (Inr r)
      then have "snd (snd (transfer env task mv False i name (ins, tr, log))) = log"
        using False None by (simp add: transfer_copy)
      then show ?thesis by blast
    qed
  qed
qed

lemma primitive_failure_reported:
  assumes "transfer_fault env task name = None
             \<and> (if mv then shutil_move name (new_name i name) ins tr = Inl e
                 else shutil_copy2 name (new_name i name) ins tr = Inl e)"
  shows "transfer env task mv False i name (ins, tr, log)
           = (ins, tr, log @ [error_line mv task i name e])"
proof (cases mv)
  case True
  then show ?thesis using assms by (simp add: transfer_move error_line_def)
next
  case False
  then show ?thesis using assms by (simp add: transfer_copy error_line_def)
qed

lemma process_task_fault_reported:
  assumes ins: "map_of t ''image_inputs'' = Some (Dir ins)"
    and pr: "process_task env task mv False t = (t', log, Returned)"
    and p: "p < length (gather_image_files ins)"
    and f: "transfer_fault env task (gather_image_files ins ! p) = Some e"
  shows "error_line mv task p (gather_image_files ins ! p) e \<in> set log"
proof -
  let ?imgs = "gather_image_files ins"
  have img: "?imgs \<noteq> []" using p by auto
  from process_task_transfers[OF ins img pr] obtain ins' tr' log0 where
    l: "transfer_all env task mv False 0 ?imgs
          (ins, entries t ''trajectory'', [Processing task (length ?imgs)]) = (ins', tr', log0)"
    and sub: "set log0 \<subseteq> set log"
    by metis
  have "error_line mv task (0 + p) (?imgs ! p) e
          \<in> set (snd (snd (transfer_all env task mv False 0 ?imgs
                 (ins, entries t ''trajectory'', [Processing task (length ?imgs)]))))"
    using p f by (rule transfer_all_fault_reported)
  then have "error_line mv task p (?imgs ! p) e \<in> set log0" unfolding l by simp
  then show ?thesis using sub by (rule subsetD[rotated])
qed

lemma process_task_content:
  assumes ins: "map_of t ''image_inputs'' = Some (Dir ins)"
    and d: "distinct (map fst ins)"
    and pr: "process_task env task mv False t = (t', log, Returned)"
    and p: "p < length (gather_image_files ins)"
    and f: "transfer_fault env task (gather_image_files ins ! p) = None"
    and nd: "\<forall>sub. map_of (entries t ''trajectory'') (new_name p (gather_image_files ins ! p))
                  \<noteq> Some (Dir sub)"
  shows "map_of (entries t' ''trajectory'') (new_name p (gather_image_files ins ! p))
           = map_of ins (gather_image_files ins ! p)
         \<and> (\<exists>c. map_of ins (gather_image_files ins ! p) = Some (File c))"
proof -
  let ?imgs = "gather_image_files ins"
  have img: "?imgs \<noteq> []" using p by auto
  from process_task_transfers[OF ins img pr] obtain ins' tr' log0 where
    l: "transfer_all env task mv False 0 ?imgs
          (ins, entries t ''trajectory'', [Processing task (length ?imgs)]) = (ins', tr', log0)"
    and tr': "entries t' ''trajectory'' = tr'"
    by metis
  have "?imgs ! p \<in> set ?imgs" using p by simp
  then obtain c where c: "map_of ins (?imgs ! p) = Some (File c)"
    using gather_file[OF d] by blast
  have nd0: "\<forall>sub. map_of (entries t ''trajectory'') (new_name (0 + p) (?imgs ! p)) \<noteq> Some (Dir sub)"
    using nd by simp
  have "map_of (fst (snd (transfer_all env task mv False 0 ?imgs
           (ins, entries t ''trajectory'', [Processing task (length ?imgs)]))))
           (new_name (0 + p) (?imgs ! p)) = Some (File c)"
    using distinct_gather[OF d] p f c nd0 by (rule transfer_all_content)
  then have "map_of tr' (new_name p (?imgs ! p)) = Some (File c)" unfolding l by simp
  then show ?thesis using tr' c by simp
qed

text \<open>
  Claim C7. For a call of \<^verbatim>\<open>process_task\<close> that is not a dry run, on a task with an
  input folder, and the gathered image at position \<open>p\<close>: the call returns unless
  \<^verbatim>\<open>trajectory\<close> is a regular file (then \<^verbatim>\<open>mkdir\<close> raises before any transfer), whatever
  transfers fail. When it returns and the transfer of that image fails, the output has
  the error line with its source path, its destination path and the cause; when its
  transfer does not fail (and its destination name is not a directory), the destination
  holds the source's content afterwards, whichever other files failed. For each single
  step of the loop, in any state: a failure of the environment or of the primitive
  leaves both folders as they were and adds the error line with that cause, and a step
  either adds nothing to the output or is such a failure. The whole run returns for
  every pattern of failures, unless some task folder holds a regular file named
  \<^verbatim>\<open>trajectory\<close>.
\<close>

theorem transfer_failures_reported:
  assumes "map_of t ''image_inputs'' = Some (Dir ins)" and "distinct (map fst ins)"
    and "process_task env task mv False t = (t', log, oc)"
    and "p < length (gather_image_files ins)"
  shows "(oc = Returned \<or> (\<exists>c. map_of t ''trajectory'' = Some (File c)))
     \<and> (oc = Returned \<longrightarrow>
          (\<forall>e. transfer_fault env task (gather_image_files ins ! p) = Some e \<longrightarrow>
                error_line mv task p (gather_image_files ins ! p) e \<in> set log)
        \<and> (transfer_fault env task (gather_image_files ins ! p) = None
             \<and> (\<forall>sub. map_of (entries t ''trajectory'') (new_name p (gather_image_files ins ! p))
                        \<noteq> Some (Dir sub))
            \<longrightarrow> map_of (entries t' ''trajectory'') (new_name p (gather_image_files ins ! p))
                  = map_of ins (gather_image_files ins ! p)
                \<and> (\<exists>c. map_of ins (gather_image_files ins ! p) = Some (File c))))
     \<and> (\<forall>i name ins0 tr0 log0.
          (\<forall>e. transfer_fault env task name = Some e \<longrightarrow>
             transfer env task mv False i name (ins0, tr0, log0)
               = (ins0, tr0, log0 @ [error_line mv task i name e]))
        \<and> (\<forall>e. transfer_fault env task name = None
                \<and> (if mv then shutil_move name (new_name i name) ins0 tr0 = Inl e
                    else shutil_copy2 name (new_name i name) ins0 tr0 = Inl e) \<longrightarrow>
             transfer env task mv False i name (ins0, tr0, log0)
               = (ins0, tr0, log0 @ [error_line mv task i name e]))
        \<and> (snd (snd (transfer env task mv False i name (ins0, tr0, log0))) = log0
            \<or> (\<exists>e. transfer env task mv False i name (ins0, tr0, log0)
                     = (ins0, tr0, log0 @ [error_line mv task i name e]))))
     \<and> (\<forall>dry root. snd (snd (main env mv dry root)) = Returned
          \<or> (\<exists>es task t c. root = Some (Dir es) \<and> map_of es task = Some (Dir t)
                            \<and> map_of t ''trajectory'' = Some (File c)))"
proof (intro conjI impI allI)
  show "oc = Returned \<or> (\<exists>c. map_of t ''trajectory'' = Some (File c))"
  proof (cases oc)
    case Returned
    then show ?thesis by (rule disjI1)
  next
    case (Raised e)
    then have "process_task env task mv False t = (t', log, Raised e)" using assms(3) by simp
    then have "\<exists>c. map_of t ''trajectory'' = Some (File c)" by (rule process_task_raised)
    then show ?thesis by (rule disjI2)
  qed
next
  fix e
  assume "oc = Returned" and f: "transfer_fault env task (gather_image_files ins ! p) = Some e"
  then have pr: "process_task env task mv False t = (t', log, Returned)" using assms(3) by simp
  show "error_line mv task p (gather_image_files ins ! p) e \<in> set log"
    using assms(1) pr assms(4) f by (rule process_task_fault_reported)
next
  assume "oc = Returned"
    and h: "transfer_fault env task (gather_image_files ins ! p) = None
             \<and> (\<forall>sub. map_of (entries t ''trajectory'') (new_name p (gather_image_files ins ! p))
                        \<noteq> Some (Dir sub))"
  then have pr: "process_task env task mv False t = (t', log, Returned)" using assms(3) by simp
  from process_task_content[OF assms(1,2) pr assms(4) conjunct1[OF h] conjunct2[OF h]]
  show "map_of (entries t' ''trajectory'') (new_name p (gather_image_files ins ! p))
                  = map_of ins (gather_image_files ins ! p)"
    by (rule conjunct1)
next
  assume "oc = Returned"
    and h: "transfer_fault env task (gather_image_files ins ! p) = None
             \<and> (\<forall>sub. map_of (entries t ''trajectory'') (new_name p (gather_image_files ins ! p))
                        \<noteq> Some (Dir sub))"
  then have pr: "process_task env task mv False t = (t', log, Returned)" using assms(3) by simp
  from process_task_content[OF assms(1,2) pr assms(4) conjunct1[OF h] conjunct2[OF h]]
  show "\<exists>c. map_of ins (gather_image_files ins ! p) = Some (File c)"
    by (rule conjunct2)
next
  fix i name ins0 tr0 log0 e
  assume "transfer_fault env task name = Some e"
  then show "transfer env task mv False i name (ins0, tr0, log0)
               = (ins0, tr0, log0 @ [error_line mv task i name e])"
    by (rule transfer_fault_reported)
next
  fix i name ins0 tr0 log0 e
  assume "transfer_fault env task name = None
                \<and> (if mv then shutil_move name (new_name i name) ins0 tr0 = Inl e
                    else shutil_copy2 name (new_name i name) ins0 tr0 = Inl e)"
  then show "transfer env task mv False i name (ins0, tr0, log0)
               = (ins0, tr0, log0 @ [error_line mv task i name e])"
    by (rule primitive_failure_reported)
next
  fix i name ins0 tr0 log0
  show "snd (snd (transfer env task mv False i name (ins0, tr0, log0))) = log0
            \<or> (\<exists>e. transfer env task mv False i name (ins0, tr0, log0)
                     = (ins0, tr0, log0 @ [error_line mv task i name e]))"
    by (rule transfer_silent_or_reported)
next
  fix dry root
  show "snd (snd (main env mv dry root)) = Returned
          \<or> (\<exists>es task t c. root = Some (Dir es) \<and> map_of es task = Some (Dir t)
                            \<and> map_of t ''trajectory'' = Some (File c))"
    by (rule main_returns)
qed

theorem transfer_failures_reported_witness:
  "process_task denied ''T1'' False False example_task
     = ([(''image_inputs'', Dir example_inputs), (''T1.log'', File ''log''),
         (''result.json'', File ''{}''),
         (''trajectory'', Dir [(''step_0_screenshot.jpg'', File ''one''),
            (''step_1_screenshot.png'', File ''two''),
            (''step_3_screenshot.png'', File ''banner'')])],
        [Processing ''T1'' 4,
         ErrorCopying [''T1'', ''image_inputs'', ''10.png'']
                      [''T1'', ''trajectory'', ''step_2_screenshot.png''] ''Permission denied''],
        Returned)
   \<and> error_line False ''T1'' 2 ''10.png'' ''Permission denied''
       \<in> set [Processing ''T1'' 4,
                ErrorCopying [''T1'', ''image_inputs'', ''10.png'']
                      [''T1'', ''trajectory'', ''step_2_screenshot.png''] ''Permission denied'']
   \<and> map_of (entries [(''image_inputs'', Dir example_inputs), (''T1.log'', File ''log''),
         (''result.json'', File ''{}''),
         (''trajectory'', Dir [(''step_0_screenshot.jpg'', File ''one''),
            (''step_1_screenshot.png'', File ''two''),
            (''step_3_screenshot.png'', File ''banner'')])] ''trajectory'')
         (new_name 3 ''banner.png'') = map_of example_inputs ''banner.png''"
proof -
  let ?T = "[(''image_inputs'', Dir example_inputs), (''T1.log'', File ''log''),
         (''result.json'', File ''{}''),
         (''trajectory'', Dir [(''step_0_screenshot.jpg'', File ''one''),
            (''step_1_screenshot.png'', File ''two''),
            (''step_3_screenshot.png'', File ''banner'')])]"
  let ?L = "[Processing ''T1'' 4,
         ErrorCopying [''T1'', ''image_inputs'', ''10.png'']
                      [''T1'', ''trajectory'', ''step_2_screenshot.png''] ''Permission denied'']"
  have e: "process_task denied ''T1'' False False example_task = (?T, ?L, Returned)"
    by code_simp
  have a: "map_of example_task ''image_inputs'' = Some (Dir example_inputs)"
    by (simp add: example_task_def)
  have d: "distinct (map fst example_inputs)"
    by (simp add: example_inputs_def)
  have g: "gather_image_files example_inputs = [''1.jpg'', ''2.png'', ''10.png'', ''banner.png'']"
    by code_simp
  have p2: "2 < length (gather_image_files example_inputs)" by (simp add: g)
  have p3: "3 < length (gather_image_files example_inputs)" by (simp add: g)
  have n2: "gather_image_files example_inputs ! 2 = ''10.png''" by (simp add: g)
  have n3: "gather_image_files example_inputs ! 3 = ''banner.png''" by (simp add: g)
  have f2: "transfer_fault denied ''T1'' ''10.png'' = Some ''Permission denied''"
    by (simp add: denied_def)
  have f3: "transfer_fault denied ''T1'' ''banner.png'' = None
      \<and> (\<forall>sub. map_of (entries example_task ''trajectory'') (new_name 3 ''banner.png'')
                 \<noteq> Some (Dir sub))"
    by (simp add: denied_def entries_def example_task_def)
  note A = transfer_failures_reported[OF a d e p2, unfolded n2, THEN conjunct2, THEN conjunct1,
             THEN mp, OF refl]
  note B = transfer_failures_reported[OF a d e p3, unfolded n3, THEN conjunct2, THEN conjunct1,
             THEN mp, OF refl]
  have r2: "error_line False ''T1'' 2 ''10.png'' ''Permission denied'' \<in> set ?L"
    by (rule A[THEN conjunct1, THEN spec, THEN mp, OF f2])
  have r3: "map_of (entries ?T ''trajectory'') (new_name 3 ''banner.png'')
              = map_of example_inputs ''banner.png''"
    by (rule B[THEN conjunct2, THEN mp, OF f3, THEN conjunct1])
  show ?thesis by (intro conjI e r2 r3)
qed

section \<open>Move mode\<close>

lemma is_error_line [simp]: "is_error (error_line mv task i name e)"
  by (simp add: error_line_def)

lemma move_step_clean:
  assumes "transfer env task True False i n (ins, tr, log) = (ins1, tr1, log1)"
    and "\<forall>m\<in>set log1. \<not> is_error m"
  shows "ins1 = AList.delete n ins"
proof (cases "transfer_fault env task n")
  case (Some e)
  then have "log1 = log @ [ErrorMoving [task, ''image_inputs'', n] [task, ''trajectory'', new_name i n] e]"
    using assms(1) by (simp add: transfer_move)
  then show ?thesis using assms(2) by simp
next
  case None
  show ?thesis
  proof (cases "shutil_move n (new_name i n) ins tr")
    case (Inl e)
    then have "log1 = log @ [ErrorMoving [task, ''image_inputs'', n] [task, ''trajectory'', new_name i n] e]"
      using assms(1) None by (simp add: transfer_move)
    then show ?thesis using assms(2) by simp
  next
    case (Inr r)
    obtain a b where r: "r = (a, b)" by (cases r)
    then have "ins1 = a" using assms(1) None Inr by (simp add: transfer_move)
    moreover have "a = AList.delete n ins" using Inr r move_source by blast
    ultimately show ?thesis by simp
  qed
qed

lemma set_delete: "set (AList.delete k al) = {p \<in> set al. fst p \<noteq> k}"
  by (induction al) auto

lemma move_all_clean:
  assumes "transfer_all env task True False i names (ins, tr, log) = (ins', tr', log')"
    and "\<forall>m\<in>set log'. \<not> is_error m"
  shows "set ins' \<subseteq> set ins \<and> (\<forall>n\<in>set names. n \<notin> fst ` set ins')"
  using assms
proof (induction names arbitrary: i ins tr log)
  case Nil
  then show ?case by simp
next
  case (Cons n ns)
  obtain ins1 tr1 log1 where s: "transfer env task True False i n (ins, tr, log) = (ins1, tr1, log1)"
    by (cases "transfer env task True False i n (ins, tr, log)") auto
  then have r: "transfer_all env task True False (Suc i) ns (ins1, tr1, log1) = (ins', tr', log')"
    using Cons.prems(1) by simp
  obtain m where "log' = log1 @ m"
    using transfer_all_log_grows[of env task True False "Suc i" ns ins1 tr1 log1] r by auto
  then have ok1: "\<forall>m\<in>set log1. \<not> is_error m" using Cons.prems(2) by simp
  have i1: "ins1 = AList.delete n ins" by (rule move_step_clean[OF s ok1])
  from Cons.IH[OF r Cons.prems(2)]
  have sub: "set ins' \<subseteq> set ins1" and gone: "\<forall>x\<in>set ns. x \<notin> fst ` set ins'" by simp_all
  have s1: "set ins1 = {p \<in> set ins. fst p \<noteq> n}" unfolding i1 by (rule set_delete)
  have a: "set ins' \<subseteq> set ins" using sub s1 by blast
  have "n \<notin> fst ` set ins1" using s1 by auto
  then have "n \<notin> fst ` set ins'" using sub by blast
  then have b: "\<forall>x\<in>set (n # ns). x \<notin> fst ` set ins'" using gone by simp
  from a b show ?case by (rule conjI)
qed

lemma no_images_left:
  assumes "set ins' \<subseteq> set ins" and "\<forall>n\<in>set (gather_image_files ins). n \<notin> fst ` set ins'"
  shows "gather_image_files ins' = []"
proof -
  have "set (gather_image_files ins') = {}"
  proof (rule ccontr)
    assume "set (gather_image_files ins') \<noteq> {}"
    then obtain n nd where m: "(n, nd) \<in> set ins'" and i: "is_image (n, nd)"
      by (auto simp: set_gather)
    then have "(n, nd) \<in> set ins" using assms(1) by blast
    then have "n \<in> set (gather_image_files ins)" using i by (force simp: set_gather)
    then have "n \<notin> fst ` set ins'" using assms(2) by blast
    then show False using m by force
  qed
  then show ?thesis by simp
qed

lemma process_task_no_images:
  assumes "map_of t ''image_inputs'' = Some (Dir ins)" and "gather_image_files ins = []"
    and "process_task env task mv False t = (t', log, Returned)"
  shows "map_of t' ''image_inputs'' = Some (Dir ins)"
proof -
  obtain t1 where mk: "mkdir_exist_ok ''trajectory'' t = Inr t1"
    using assms(1,3) by (cases "mkdir_exist_ok ''trajectory'' t") (simp_all add: process_task_def)
  then have "t' = t1" using assms by (simp add: process_task_def)
  moreover have "map_of t1 ''image_inputs'' = map_of t ''image_inputs''"
    by (rule mkdir_other[OF mk]) simp
  ultimately show ?thesis using assms(1) by simp
qed

lemma move_sources_gone:
  assumes ins: "map_of t ''image_inputs'' = Some (Dir ins)"
    and pr: "process_task env task True False t = (t', log, Returned)"
    and ok: "\<forall>m\<in>set log. \<not> is_error m"
  shows "gather_image_files (entries t' ''image_inputs'') = []
       \<and> (\<forall>n\<in>set (gather_image_files ins). n \<notin> fst ` set (entries t' ''image_inputs''))
       \<and> set (entries t' ''image_inputs'') \<subseteq> set ins"
proof (cases "gather_image_files ins = []")
  case True
  have "entries t' ''image_inputs'' = ins"
    using process_task_no_images[OF ins True pr] by (simp add: entries_def)
  then show ?thesis using True by simp
next
  case False
  from process_task_transfers[OF ins False pr] obtain ins' tr' log0 where
    l: "transfer_all env task True False 0 (gather_image_files ins)
          (ins, entries t ''trajectory'', [Processing task (length (gather_image_files ins))])
          = (ins', tr', log0)"
    and sub: "set log0 \<subseteq> set log"
    and m: "map_of t' ''image_inputs'' =
           (if True \<and> \<not> rmdir_fault env task \<and> ins' = [] then None else Some (Dir ins'))"
    by metis
  have ok0: "\<forall>m\<in>set log0. \<not> is_error m" using ok sub by blast
  from move_all_clean[OF l ok0]
  have a: "set ins' \<subseteq> set ins" and b: "\<forall>n\<in>set (gather_image_files ins). n \<notin> fst ` set ins'"
    by simp_all
  have e: "entries t' ''image_inputs'' = ins'"
    using m by (auto simp: entries_def)
  have "gather_image_files ins' = []" using a b by (rule no_images_left)
  then show ?thesis unfolding e using a b by simp
qed

lemma move_folder_removed:
  assumes ins: "map_of t ''image_inputs'' = Some (Dir ins)"
    and pr: "process_task env task True False t = (t', log, Returned)"
    and img: "gather_image_files ins \<noteq> []" and nf: "\<not> rmdir_fault env task"
  shows "map_of t' ''image_inputs'' \<noteq> Some (Dir [])"
proof -
  from process_task_transfers[OF ins img pr] obtain ins' where
    m: "map_of t' ''image_inputs'' =
           (if True \<and> \<not> rmdir_fault env task \<and> ins' = [] then None else Some (Dir ins'))"
    by metis
  show ?thesis using m nf by (cases "ins' = []") simp_all
qed

lemma no_error_no_fault:
  assumes ins: "map_of t ''image_inputs'' = Some (Dir ins)"
    and pr: "process_task env task mv False t = (t', log, Returned)"
    and ok: "\<forall>m\<in>set log. \<not> is_error m"
    and p: "p < length (gather_image_files ins)"
  shows "transfer_fault env task (gather_image_files ins ! p) = None"
proof (cases "transfer_fault env task (gather_image_files ins ! p)")
  case None
  then show ?thesis .
next
  case (Some e)
  have "error_line mv task p (gather_image_files ins ! p) e \<in> set log"
    using ins pr p Some by (rule process_task_fault_reported)
  then have "\<not> is_error (error_line mv task p (gather_image_files ins ! p) e)"
    using ok by blast
  then show ?thesis by simp
qed

text \<open>
  Claim C5. Three runs in move mode in which no transfer fails, and the claim does not
  hold. An input folder that is empty from the start: the task is skipped before the
  removal block, and the empty folder is still there. A task whose only image is moved
  while \<^verbatim>\<open>rmdir\<close> fails (the handler of the removal block ignores it): the input folder
  is empty and is still there. A trajectory folder that has a directory under the
  destination name: \<^verbatim>\<open>shutil.move\<close> puts the file into that directory, so the
  destination name is not a file with the source's content.
\<close>

theorem move_mode_leftovers:
  "process_task no_faults ''T'' True False [(''image_inputs'', Dir [])]
     = ([(''image_inputs'', Dir []), (''trajectory'', Dir [])], [SkipNoImages ''T''], Returned)
   \<and> process_task busy ''T'' True False
       [(''image_inputs'', Dir [(''1.png'', File ''a'')]), (''trajectory'', Dir [])]
     = ([(''image_inputs'', Dir []), (''trajectory'', Dir [(''step_0_screenshot.png'', File ''a'')])],
        [Processing ''T'' 1], Returned)
   \<and> process_task no_faults ''T'' True False
       [(''image_inputs'', Dir [(''1.png'', File ''a''), (''notes.txt'', File ''n'')]),
        (''trajectory'', Dir [(''step_0_screenshot.png'', Dir [])])]
     = ([(''image_inputs'', Dir [(''notes.txt'', File ''n'')]),
         (''trajectory'', Dir [(''step_0_screenshot.png'', Dir [(''1.png'', File ''a'')])])],
        [Processing ''T'' 1], Returned)"
  by code_simp

text \<open>
  Claim C5, amended. In move mode, not a dry run, for a task with an input folder (its
  names distinct) whose call returns without an error line: no image is left in the
  input folder, none of the gathered names is left in it, and what is left was there
  before; when at least one image was gathered and \<^verbatim>\<open>rmdir\<close> does not fail, the input
  folder is not there as an empty folder afterwards; and every destination name that was
  not a directory before holds the content the source at its position had, a regular
  file.
\<close>

theorem move_mode_effects:
  assumes "map_of t ''image_inputs'' = Some (Dir ins)" and "distinct (map fst ins)"
    and "process_task env task True False t = (t', log, Returned)"
    and "\<forall>m\<in>set log. \<not> is_error m"
  shows "gather_image_files (entries t' ''image_inputs'') = []
     \<and> (\<forall>n\<in>set (gather_image_files ins). n \<notin> fst ` set (entries t' ''image_inputs''))
     \<and> set (entries t' ''image_inputs'') \<subseteq> set ins
     \<and> (gather_image_files ins \<noteq> [] \<and> \<not> rmdir_fault env task
          \<longrightarrow> map_of t' ''image_inputs'' \<noteq> Some (Dir []))
     \<and> (\<forall>p. p < length (gather_image_files ins)
            \<and> (\<forall>sub. map_of (entries t ''trajectory'') (new_name p (gather_image_files ins ! p))
                       \<noteq> Some (Dir sub))
          \<longrightarrow> map_of (entries t' ''trajectory'') (new_name p (gather_image_files ins ! p))
                = map_of ins (gather_image_files ins ! p)
              \<and> (\<exists>c. map_of ins (gather_image_files ins ! p) = Some (File c)))"
proof -
  note g = move_sources_gone[OF assms(1,3,4)]
  have c1: "gather_image_files (entries t' ''image_inputs'') = []"
    by (rule g[THEN conjunct1])
  have c2: "\<forall>n\<in>set (gather_image_files ins). n \<notin> fst ` set (entries t' ''image_inputs'')"
    by (rule g[THEN conjunct2, THEN conjunct1])
  have c3: "set (entries t' ''image_inputs'') \<subseteq> set ins"
    by (rule g[THEN conjunct2, THEN conjunct2])
  have c4: "gather_image_files ins \<noteq> [] \<and> \<not> rmdir_fault env task
          \<longrightarrow> map_of t' ''image_inputs'' \<noteq> Some (Dir [])"
  proof
    assume h: "gather_image_files ins \<noteq> [] \<and> \<not> rmdir_fault env task"
    show "map_of t' ''image_inputs'' \<noteq> Some (Dir [])"
      using assms(1,3) conjunct1[OF h] conjunct2[OF h] by (rule move_folder_removed)
  qed
  have c5: "\<forall>p. p < length (gather_image_files ins)
            \<and> (\<forall>sub. map_of (entries t ''trajectory'') (new_name p (gather_image_files ins ! p))
                       \<noteq> Some (Dir sub))
          \<longrightarrow> map_of (entries t' ''trajectory'') (new_name p (gather_image_files ins ! p))
                = map_of ins (gather_image_files ins ! p)
              \<and> (\<exists>c. map_of ins (gather_image_files ins ! p) = Some (File c))"
  proof (intro allI impI)
    fix p
    assume h: "p < length (gather_image_files ins)
            \<and> (\<forall>sub. map_of (entries t ''trajectory'') (new_name p (gather_image_files ins ! p))
                       \<noteq> Some (Dir sub))"
    have f: "transfer_fault env task (gather_image_files ins ! p) = None"
      using assms(1,3,4) conjunct1[OF h] by (rule no_error_no_fault)
    show "map_of (entries t' ''trajectory'') (new_name p (gather_image_files ins ! p))
                = map_of ins (gather_image_files ins ! p)
              \<and> (\<exists>c. map_of ins (gather_image_files ins ! p) = Some (File c))"
      using assms(1,2,3) conjunct1[OF h] f conjunct2[OF h] by (rule process_task_content)
  qed
  show ?thesis by (intro conjI c1 c2 c3 c4 c5)
qed

theorem move_mode_effects_witness:
  "process_task no_faults ''T1'' True False example_task
     = ([(''T1.log'', File ''log''), (''result.json'', File ''{}''),
         (''trajectory'', Dir [(''step_0_screenshot.jpg'', File ''one''),
            (''step_1_screenshot.png'', File ''two''),
            (''step_2_screenshot.png'', File ''ten''),
            (''step_3_screenshot.png'', File ''banner'')])],
        [Processing ''T1'' 4, RemovedEmpty [''T1'', ''image_inputs'']], Returned)
   \<and> gather_image_files (entries [(''T1.log'', File ''log''), (''result.json'', File ''{}''),
         (''trajectory'', Dir [(''step_0_screenshot.jpg'', File ''one''),
            (''step_1_screenshot.png'', File ''two''),
            (''step_2_screenshot.png'', File ''ten''),
            (''step_3_screenshot.png'', File ''banner'')])] ''image_inputs'') = []
   \<and> map_of [(''T1.log'', File ''log''), (''result.json'', File ''{}''),
         (''trajectory'', Dir [(''step_0_screenshot.jpg'', File ''one''),
            (''step_1_screenshot.png'', File ''two''),
            (''step_2_screenshot.png'', File ''ten''),
            (''step_3_screenshot.png'', File ''banner'')])] ''image_inputs'' \<noteq> Some (Dir [])
   \<and> map_of (entries [(''T1.log'', File ''log''), (''result.json'', File ''{}''),
         (''trajectory'', Dir [(''step_0_screenshot.jpg'', File ''one''),
            (''step_1_screenshot.png'', File ''two''),
            (''step_2_screenshot.png'', File ''ten''),
            (''step_3_screenshot.png'', File ''banner'')])] ''trajectory'')
         (new_name 0 ''1.jpg'') = map_of example_inputs ''1.jpg''"
proof -
  let ?T = "[(''T1.log'', File ''log''), (''result.json'', File ''{}''),
         (''trajectory'', Dir [(''step_0_screenshot.jpg'', File ''one''),
            (''step_1_screenshot.png'', File ''two''),
            (''step_2_screenshot.png'', File ''ten''),
            (''step_3_screenshot.png'', File ''banner'')])]"
  let ?L = "[Processing ''T1'' 4, RemovedEmpty [''T1'', ''image_inputs'']]"
  have e: "process_task no_faults ''T1'' True False example_task = (?T, ?L, Returned)"
    by code_simp
  have a: "map_of example_task ''image_inputs'' = Some (Dir example_inputs)"
    by (simp add: example_task_def)
  have d: "distinct (map fst example_inputs)"
    by (simp add: example_inputs_def)
  have ok: "\<forall>m\<in>set ?L. \<not> is_error m" by simp
  have g: "gather_image_files example_inputs = [''1.jpg'', ''2.png'', ''10.png'', ''banner.png'']"
    by code_simp
  have n0: "gather_image_files example_inputs ! 0 = ''1.jpg''" by (simp add: g)
  note M = move_mode_effects[OF a d e ok]
  have h4: "gather_image_files example_inputs \<noteq> [] \<and> \<not> rmdir_fault no_faults ''T1''"
    by (simp add: g no_faults_def)
  have h5: "0 < length (gather_image_files example_inputs)
      \<and> (\<forall>sub. map_of (entries example_task ''trajectory'')
                   (new_name 0 (gather_image_files example_inputs ! 0)) \<noteq> Some (Dir sub))"
    by (simp add: g entries_def example_task_def)
  have c1: "gather_image_files (entries ?T ''image_inputs'') = []"
    by (rule M[THEN conjunct1])
  have c4: "map_of ?T ''image_inputs'' \<noteq> Some (Dir [])"
    by (rule M[THEN conjunct2, THEN conjunct2, THEN conjunct2, THEN conjunct1, THEN mp, OF h4])
  have c5: "map_of (entries ?T ''trajectory'') (new_name 0 (gather_image_files example_inputs ! 0))
              = map_of example_inputs (gather_image_files example_inputs ! 0)"
    by (rule M[THEN conjunct2, THEN conjunct2, THEN conjunct2, THEN conjunct2, THEN spec,
               THEN mp, OF h5, THEN conjunct1])
  show ?thesis by (intro conjI e c1 c4 c5[unfolded n0])
qed

section \<open>The names of the destinations\<close>

lemma process_task_frame:
  assumes ins: "map_of t ''image_inputs'' = Some (Dir ins)"
    and pr: "process_task env task mv False t = (t', log, Returned)"
    and k: "\<forall>p < length (gather_image_files ins). k \<noteq> new_name p (gather_image_files ins ! p)"
  shows "map_of (entries t' ''trajectory'') k = map_of (entries t ''trajectory'') k"
proof (cases "gather_image_files ins = []")
  case True
  obtain t1 where mk: "mkdir_exist_ok ''trajectory'' t = Inr t1"
    using ins pr by (cases "mkdir_exist_ok ''trajectory'' t") (simp_all add: process_task_def)
  then have "t' = t1" using ins pr True by (simp add: process_task_def)
  then show ?thesis using mkdir_entries_eq[OF mk] by simp
next
  case False
  let ?imgs = "gather_image_files ins"
  from process_task_transfers[OF ins False pr] obtain ins' tr' log0 where
    l: "transfer_all env task mv False 0 ?imgs
          (ins, entries t ''trajectory'', [Processing task (length ?imgs)]) = (ins', tr', log0)"
    and tr': "entries t' ''trajectory'' = tr'"
    by metis
  have k0: "\<forall>p < length ?imgs. k \<noteq> new_name (0 + p) (?imgs ! p)" using k by simp
  have "map_of (fst (snd (transfer_all env task mv False 0 ?imgs
           (ins, entries t ''trajectory'', [Processing task (length ?imgs)])))) k
          = map_of (entries t ''trajectory'') k"
    using k0 by (rule transfer_all_tr_frame)
  then show ?thesis unfolding l using tr' by simp
qed

lemma destination_names_distinct:
  "inj_on (\<lambda>p. new_name p (names ! p)) A"
  by (rule inj_onI) (rule new_name_inj)

lemma fresh_destinations:
  assumes ins: "map_of t ''image_inputs'' = Some (Dir ins)" and d: "distinct (map fst ins)"
    and pr: "process_task env task mv False t = (t', log, Returned)"
    and ok: "\<forall>m\<in>set log. \<not> is_error m"
    and e: "entries t ''trajectory'' = []"
  shows "fst ` set (entries t' ''trajectory'')
           = (\<lambda>p. new_name p (gather_image_files ins ! p)) ` {..< length (gather_image_files ins)}"
proof -
  let ?imgs = "gather_image_files ins"
  let ?D = "(\<lambda>p. new_name p (?imgs ! p)) ` {..< length ?imgs}"
  have "dom (map_of (entries t' ''trajectory'')) = ?D"
  proof (rule set_eqI)
    fix k
    show "k \<in> dom (map_of (entries t' ''trajectory'')) \<longleftrightarrow> k \<in> ?D"
    proof
      assume kd: "k \<in> dom (map_of (entries t' ''trajectory''))"
      show "k \<in> ?D"
      proof (rule ccontr)
        assume "k \<notin> ?D"
        then have "\<forall>p < length ?imgs. k \<noteq> new_name p (?imgs ! p)" by auto
        from process_task_frame[OF ins pr this]
        have "map_of (entries t' ''trajectory'') k = None" using e by simp
        then show False using kd by auto
      qed
    next
      assume "k \<in> ?D"
      then obtain p where p: "p < length ?imgs" and k: "k = new_name p (?imgs ! p)" by auto
      have f: "transfer_fault env task (?imgs ! p) = None"
        using ins pr ok p by (rule no_error_no_fault)
      have nd: "\<forall>sub. map_of (entries t ''trajectory'') (new_name p (?imgs ! p)) \<noteq> Some (Dir sub)"
        using e by simp
      from process_task_content[OF ins d pr p f nd]
      show "k \<in> dom (map_of (entries t' ''trajectory''))" using k by auto
    qed
  qed
  then show ?thesis by (simp add: dom_map_of_conv_image_fst)
qed

text \<open>
  Claim C2. With four gathered images and the copy of \<^verbatim>\<open>10.png\<close> failing, three
  destination files are produced and none is named \<^verbatim>\<open>step_2_screenshot.png\<close>. With a
  directory under the destination name, the copy goes into it under the source's own
  name, and no file named \<^verbatim>\<open>step_0_screenshot.png\<close> is produced.
\<close>

theorem fewer_destinations:
  "process_task denied ''T1'' False False example_task
     = ([(''image_inputs'', Dir example_inputs), (''T1.log'', File ''log''),
         (''result.json'', File ''{}''),
         (''trajectory'', Dir [(''step_0_screenshot.jpg'', File ''one''),
            (''step_1_screenshot.png'', File ''two''),
            (''step_3_screenshot.png'', File ''banner'')])],
        [Processing ''T1'' 4,
         ErrorCopying [''T1'', ''image_inputs'', ''10.png'']
                      [''T1'', ''trajectory'', ''step_2_screenshot.png''] ''Permission denied''],
        Returned)
   \<and> process_task no_faults ''T'' False False
       [(''image_inputs'', Dir [(''1.png'', File ''a'')]),
        (''trajectory'', Dir [(''step_0_screenshot.png'', Dir [])])]
     = ([(''image_inputs'', Dir [(''1.png'', File ''a'')]),
         (''trajectory'', Dir [(''step_0_screenshot.png'', Dir [(''1.png'', File ''a'')])])],
        [Processing ''T'' 1], Returned)"
  by code_simp

text \<open>
  Claim C2, amended. Not a dry run, in either mode, for a task with an input folder (its
  names distinct) whose call returns without an error line, \<open>N\<close> the number of gathered
  images: for every position \<open>p < N\<close> whose destination name was not a directory before,
  that name holds afterwards the content of the source at position \<open>p\<close>, a regular file;
  the destination name at position \<open>p\<close> is \<^verbatim>\<open>step_\<close>, the decimal numeral of \<open>p\<close>,
  \<^verbatim>\<open>_screenshot\<close> and the source's extension in lower case, one of the recognised
  extensions; destination names at different positions differ; no other entry of the
  trajectory folder is changed; when the trajectory folder was absent or empty before,
  its names afterwards are exactly these \<open>N\<close> names, \<open>N\<close> of them. Two sources with the same
  lower-cased extension get the same destination name at the same position, whatever the
  rest of their names.
\<close>

theorem destination_names:
  assumes "map_of t ''image_inputs'' = Some (Dir ins)" and "distinct (map fst ins)"
    and "process_task env task mv False t = (t', log, Returned)"
    and "\<forall>m\<in>set log. \<not> is_error m"
  shows "(\<forall>p. p < length (gather_image_files ins)
            \<and> (\<forall>sub. map_of (entries t ''trajectory'') (new_name p (gather_image_files ins ! p))
                       \<noteq> Some (Dir sub))
          \<longrightarrow> map_of (entries t' ''trajectory'') (new_name p (gather_image_files ins ! p))
                = map_of ins (gather_image_files ins ! p)
              \<and> (\<exists>c. map_of ins (gather_image_files ins ! p) = Some (File c)))
     \<and> (\<forall>p. p < length (gather_image_files ins) \<longrightarrow>
            new_name p (gather_image_files ins ! p)
              = ''step_'' @ dec p @ ''_screenshot'' @ lower (suffix (gather_image_files ins ! p))
          \<and> int_of_digits (dec p) = int p
          \<and> lower (suffix (gather_image_files ins ! p)) \<in> set IMG_EXTS)
     \<and> (\<forall>p q. new_name p (gather_image_files ins ! p) = new_name q (gather_image_files ins ! q)
            \<longrightarrow> p = q)
     \<and> (\<forall>k. (\<forall>p < length (gather_image_files ins). k \<noteq> new_name p (gather_image_files ins ! p))
            \<longrightarrow> map_of (entries t' ''trajectory'') k = map_of (entries t ''trajectory'') k)
     \<and> (entries t ''trajectory'' = [] \<longrightarrow>
            fst ` set (entries t' ''trajectory'')
              = (\<lambda>p. new_name p (gather_image_files ins ! p)) ` {..< length (gather_image_files ins)}
          \<and> card (fst ` set (entries t' ''trajectory'')) = length (gather_image_files ins))
     \<and> (\<forall>i a b. lower (suffix a) = lower (suffix b) \<longrightarrow> new_name i a = new_name i b)"
proof (intro conjI allI impI)
  fix p
  assume h: "p < length (gather_image_files ins)
            \<and> (\<forall>sub. map_of (entries t ''trajectory'') (new_name p (gather_image_files ins ! p))
                       \<noteq> Some (Dir sub))"
  have f: "transfer_fault env task (gather_image_files ins ! p) = None"
    using assms(1,3,4) conjunct1[OF h] by (rule no_error_no_fault)
  note c = process_task_content[OF assms(1,2,3) conjunct1[OF h] f conjunct2[OF h]]
  show "map_of (entries t' ''trajectory'') (new_name p (gather_image_files ins ! p))
                = map_of ins (gather_image_files ins ! p)"
    by (rule c[THEN conjunct1])
  show "\<exists>c. map_of ins (gather_image_files ins ! p) = Some (File c)"
    by (rule c[THEN conjunct2])
next
  fix p
  show "new_name p (gather_image_files ins ! p)
              = ''step_'' @ dec p @ ''_screenshot'' @ lower (suffix (gather_image_files ins ! p))"
    by (rule new_name_def)
next
  fix p
  show "int_of_digits (dec p) = int p" by (rule int_of_digits_dec)
next
  fix p
  assume "p < length (gather_image_files ins)"
  then have "gather_image_files ins ! p \<in> set (gather_image_files ins)" by simp
  then show "lower (suffix (gather_image_files ins ! p)) \<in> set IMG_EXTS" by (rule gather_ext)
next
  fix p q
  assume "new_name p (gather_image_files ins ! p) = new_name q (gather_image_files ins ! q)"
  then show "p = q" by (rule new_name_inj)
next
  fix k
  assume "\<forall>p < length (gather_image_files ins). k \<noteq> new_name p (gather_image_files ins ! p)"
  with assms(1,3) show "map_of (entries t' ''trajectory'') k = map_of (entries t ''trajectory'') k"
    by (rule process_task_frame)
next
  assume e: "entries t ''trajectory'' = []"
  show "fst ` set (entries t' ''trajectory'')
              = (\<lambda>p. new_name p (gather_image_files ins ! p)) ` {..< length (gather_image_files ins)}"
    using assms e by (rule fresh_destinations)
next
  assume e: "entries t ''trajectory'' = []"
  have "fst ` set (entries t' ''trajectory'')
              = (\<lambda>p. new_name p (gather_image_files ins ! p)) ` {..< length (gather_image_files ins)}"
    using assms e by (rule fresh_destinations)
  then show "card (fst ` set (entries t' ''trajectory'')) = length (gather_image_files ins)"
    by (simp add: card_image destination_names_distinct)
next
  fix i a b
  assume "lower (suffix a) = lower (suffix b)"
  then show "new_name i a = new_name i b" by (simp add: new_name_def)
qed

theorem destination_names_witness:
  "process_task no_faults ''T1'' False False example_task
     = ([(''image_inputs'', Dir example_inputs), (''T1.log'', File ''log''),
         (''result.json'', File ''{}''),
         (''trajectory'', Dir [(''step_0_screenshot.jpg'', File ''one''),
            (''step_1_screenshot.png'', File ''two''),
            (''step_2_screenshot.png'', File ''ten''),
            (''step_3_screenshot.png'', File ''banner'')])],
        [Processing ''T1'' 4], Returned)
   \<and> card (fst ` set (entries [(''image_inputs'', Dir example_inputs), (''T1.log'', File ''log''),
         (''result.json'', File ''{}''),
         (''trajectory'', Dir [(''step_0_screenshot.jpg'', File ''one''),
            (''step_1_screenshot.png'', File ''two''),
            (''step_2_screenshot.png'', File ''ten''),
            (''step_3_screenshot.png'', File ''banner'')])] ''trajectory'')) = 4
   \<and> map_of (entries [(''image_inputs'', Dir example_inputs), (''T1.log'', File ''log''),
         (''result.json'', File ''{}''),
         (''trajectory'', Dir [(''step_0_screenshot.jpg'', File ''one''),
            (''step_1_screenshot.png'', File ''two''),
            (''step_2_screenshot.png'', File ''ten''),
            (''step_3_screenshot.png'', File ''banner'')])] ''trajectory'')
         (new_name 2 ''10.png'') = map_of example_inputs ''10.png''
   \<and> new_name 2 ''10.png'' = ''step_2_screenshot.png''"
proof -
  let ?T = "[(''image_inputs'', Dir example_inputs), (''T1.log'', File ''log''),
         (''result.json'', File ''{}''),
         (''trajectory'', Dir [(''step_0_screenshot.jpg'', File ''one''),
            (''step_1_screenshot.png'', File ''two''),
            (''step_2_screenshot.png'', File ''ten''),
            (''step_3_screenshot.png'', File ''banner'')])]"
  let ?L = "[Processing ''T1'' 4]"
  have e: "process_task no_faults ''T1'' False False example_task = (?T, ?L, Returned)"
    by code_simp
  have a: "map_of example_task ''image_inputs'' = Some (Dir example_inputs)"
    by (simp add: example_task_def)
  have d: "distinct (map fst example_inputs)"
    by (simp add: example_inputs_def)
  have ok: "\<forall>m\<in>set ?L. \<not> is_error m" by simp
  have g: "gather_image_files example_inputs = [''1.jpg'', ''2.png'', ''10.png'', ''banner.png'']"
    by code_simp
  have n2: "gather_image_files example_inputs ! 2 = ''10.png''" by (simp add: g)
  have len: "length (gather_image_files example_inputs) = 4" by (simp add: g)
  have fresh: "entries example_task ''trajectory'' = []"
    by (simp add: entries_def example_task_def)
  note M = destination_names[OF a d e ok]
  have h1: "2 < length (gather_image_files example_inputs)
      \<and> (\<forall>sub. map_of (entries example_task ''trajectory'')
                   (new_name 2 (gather_image_files example_inputs ! 2)) \<noteq> Some (Dir sub))"
    by (simp add: len fresh)
  have c1: "map_of (entries ?T ''trajectory'') (new_name 2 (gather_image_files example_inputs ! 2))
              = map_of example_inputs (gather_image_files example_inputs ! 2)"
    by (rule M[THEN conjunct1, THEN spec, THEN mp, OF h1, THEN conjunct1])
  have c5: "card (fst ` set (entries ?T ''trajectory'')) = length (gather_image_files example_inputs)"
    by (rule M[THEN conjunct2, THEN conjunct2, THEN conjunct2, THEN conjunct2, THEN conjunct1,
               THEN mp, OF fresh, THEN conjunct2])
  have nm: "new_name 2 ''10.png'' = ''step_2_screenshot.png''"
    by code_simp
  show ?thesis by (intro conjI e c5[unfolded len] c1[unfolded n2] nm)
qed

end
